theory Spec2Isabelle
  imports Main "HOL-Library.Char_ord" "HOL-Library.List_Lexorder" "HOL-Library.AList"
begin

section \<open>Package pg: the connection string and the shared pool\<close>

text \<open>
  The package has three exported functions: \<open>DSN\<close> builds a connection string from the
  process environment, \<open>Connection\<close> hands out a connection of a lazily built, process-wide
  pool, and \<open>Disconnect\<close> rolls a transaction back and releases the connection.

  A Go \<open>string\<close> is a sequence of bytes, and so is a HOL \<open>string\<close> (a \<open>char\<close> is one byte);
  \<open>of_char\<close> reads the byte as a number. The functions of Go's standard library that \<open>DSN\<close>
  calls are modelled first, each after its Go source.
\<close>

subsection \<open>Package strconv\<close>

text \<open>\<open>strconv.Itoa\<close>: the decimal rendering of an \<open>int\<close>, with a leading minus sign for a
  negative number.\<close>

definition digit_char :: "nat \<Rightarrow> char" where
  "digit_char d = ''0123456789'' ! d"

fun formatUint :: "nat \<Rightarrow> string" where
  "formatUint n = (if n < 10 then [digit_char n] else formatUint (n div 10) @ [digit_char (n mod 10)])"

declare formatUint.simps [simp del]

definition Itoa :: "int \<Rightarrow> string" where
  "Itoa i = (if i < 0 then CHR ''-'' # formatUint (nat (- i)) else formatUint (nat i))"

subsection \<open>Packages unicode, utf8 and strings\<close>

definition RuneError :: nat where
  "RuneError = 0xFFFD"

definition RuneSelf :: nat where
  "RuneSelf = 0x80"

definition UTFMax :: nat where
  "UTFMax = 4"

text \<open>\<open>unicode.IsSpace\<close>: in Latin-1 the eight characters listed, beyond it the
  \<open>White_Space\<close> table.\<close>

definition IsSpace :: "nat \<Rightarrow> bool" where
  "IsSpace r =
     (if r \<le> 0xFF then r \<in> {0x09, 0x0A, 0x0B, 0x0C, 0x0D, 0x20, 0x85, 0xA0}
      else r = 0x1680 \<or> (0x2000 \<le> r \<and> r \<le> 0x200A) \<or> r = 0x2028 \<or> r = 0x2029
           \<or> r = 0x202F \<or> r = 0x205F \<or> r = 0x3000)"

text \<open>The table \<open>asciiSpace\<close> of package strings: tab, newline, vertical tab, form feed,
  carriage return and space.\<close>

definition asciiSpace :: "char \<Rightarrow> bool" where
  "asciiSpace c = (of_char c \<in> {0x09, 0x0A, 0x0B, 0x0C, 0x0D, 0x20 :: nat})"

text \<open>\<open>utf8.RuneStart\<close>: the byte is not a continuation byte \<open>10xxxxxx\<close>.\<close>

definition RuneStart :: "char \<Rightarrow> bool" where
  "RuneStart b = (of_char b div 0x40 \<noteq> (2 :: nat))"

text \<open>
  \<open>utf8.DecodeRuneInString\<close> returns the first rune of the string and its width in bytes.
  The table \<open>first\<close> of the Go source gives, per leading byte, the width and the range the
  second byte must lie in; it is written out here as comparisons. An invalid or truncated
  encoding is \<open>(RuneError, 1)\<close>, the empty string \<open>(RuneError, 0)\<close>.
\<close>

fun DecodeRuneInString :: "string \<Rightarrow> nat \<times> nat" where
  "DecodeRuneInString [] = (RuneError, 0)"
| "DecodeRuneInString (c0 # rest) =
     (let s0 = (of_char c0 :: nat) in
      if s0 < RuneSelf then (s0, 1)
      else if s0 < 0xC2 \<or> 0xF4 < s0 then (RuneError, 1)
      else
        let sz = (if s0 < 0xE0 then 2 else if s0 < 0xF0 then 3 else 4 :: nat);
            lo = (if s0 = 0xE0 then 0xA0 else if s0 = 0xF0 then 0x90 else 0x80 :: nat);
            hi = (if s0 = 0xED then 0x9F else if s0 = 0xF4 then 0x8F else 0xBF :: nat)
        in
        if Suc (length rest) < sz then (RuneError, 1)
        else
          let s1 = (of_char (rest ! 0) :: nat) in
          if s1 < lo \<or> hi < s1 then (RuneError, 1)
          else if sz \<le> 2 then ((s0 mod 0x20) * 0x40 + s1 mod 0x40, 2)
          else
            let s2 = (of_char (rest ! 1) :: nat) in
            if s2 < 0x80 \<or> 0xBF < s2 then (RuneError, 1)
            else if sz \<le> 3 then ((s0 mod 0x10) * 0x1000 + (s1 mod 0x40) * 0x40 + s2 mod 0x40, 3)
            else
              let s3 = (of_char (rest ! 2) :: nat) in
              if s3 < 0x80 \<or> 0xBF < s3 then (RuneError, 1)
              else ((s0 mod 8) * 0x40000 + (s1 mod 0x40) * 0x1000 + (s2 mod 0x40) * 0x40
                      + s3 mod 0x40, 4))"

text \<open>
  The backward scan of \<open>utf8.DecodeLastRuneInString\<close>:
  \<^verbatim>\<open>for start--; start >= lim; start-- { if RuneStart(s[start]) { break } }\<close>
  entered with \<open>start\<close> already decremented. It may leave \<open>start = lim - 1\<close>, which is
  \<open>-1\<close> when \<open>lim = 0\<close>, hence the integers.
\<close>

function scan_back :: "string \<Rightarrow> int \<Rightarrow> int \<Rightarrow> int" where
  "scan_back s lim start =
     (if start \<ge> lim \<and> start \<ge> 0 then
        (if RuneStart (s ! nat start) then start else scan_back s lim (start - 1))
      else start)"
  by pat_completeness auto
termination
  by (relation "measure (\<lambda>(s, lim, start). nat (start + 1))") auto

declare scan_back.simps [simp del]

definition DecodeLastRuneInString :: "string \<Rightarrow> nat \<times> nat" where
  "DecodeLastRuneInString s =
     (let end = length s in
      if end = 0 then (RuneError, 0)
      else
        let start = end - 1; r = (of_char (s ! start) :: nat) in
        if r < RuneSelf then (r, 1)
        else
          let lim = (if end < UTFMax then 0 else int end - int UTFMax);
              start = scan_back s lim (int start - 1);
              start = (if start < 0 then 0 else nat start);
              (r, size) = DecodeRuneInString (drop start s)
          in if start + size \<noteq> end then (RuneError, 1) else (r, size))"

lemma DecodeRuneInString_width: "s \<noteq> [] \<Longrightarrow> 1 \<le> snd (DecodeRuneInString s)"
  by (cases s) (simp_all add: Let_def)

lemma scan_back_le: "scan_back s lim start \<le> start"
proof (induction s lim start rule: scan_back.induct)
  case (1 s lim start)
  then show ?case
    by (subst scan_back.simps) (auto simp: le_diff_eq)
qed

lemma DecodeLastRuneInString_width:
  assumes "s \<noteq> []"
  shows "1 \<le> snd (DecodeLastRuneInString s)"
proof -
  define sb where "sb = scan_back s (if length s < UTFMax then 0 else int (length s) - int UTFMax)
                          (int (length s - 1) - 1)"
  define start where "start = (if sb < 0 then 0 else nat sb)"
  have "sb \<le> int (length s - 1) - 1"
    unfolding sb_def by (rule scan_back_le)
  then have lt: "start < length s"
    using assms by (auto simp: start_def)
  obtain r w where d: "DecodeRuneInString (drop start s) = (r, w)"
    by (cases "DecodeRuneInString (drop start s)")
  have "start + w = length s \<Longrightarrow> 1 \<le> w"
    using lt by simp
  then show ?thesis
    using assms d unfolding DecodeLastRuneInString_def Let_def sb_def [symmetric] start_def [symmetric]
    by (auto split: if_splits)
qed

text \<open>
  \<open>strings.TrimLeftFunc\<close> is \<open>indexFunc(s, f, false)\<close> followed by \<open>s[i:]\<close>: the loop
  \<^verbatim>\<open>for i, r := range s\<close> decodes one rune after the other (an invalid byte is
  \<open>RuneError\<close> of width 1, as in \<open>DecodeRuneInString\<close>) and stops at the first rune that
  \<open>f\<close> rejects; when there is none the result is the empty string.
\<close>

function TrimLeftFunc :: "string \<Rightarrow> (nat \<Rightarrow> bool) \<Rightarrow> string" where
  "TrimLeftFunc [] f = []"
| "TrimLeftFunc (c # s) f =
     (let (r, size) = DecodeRuneInString (c # s) in
      if f r = False then c # s else TrimLeftFunc (drop size (c # s)) f)"
  by pat_completeness auto
termination
proof (relation "measure (\<lambda>(s, f). length s)", goal_cases)
  case 1
  show ?case by simp
next
  case (2 c s f x r size)
  then have "DecodeRuneInString (c # s) = (r, size)"
    by (simp del: DecodeRuneInString.simps)
  then have "1 \<le> size"
    using DecodeRuneInString_width [of "c # s"] by (simp del: DecodeRuneInString.simps)
  then show ?case by simp
qed

text \<open>
  \<open>strings.lastIndexFunc(s, f, truth)\<close>:
  \<^verbatim>\<open>for i := len(s); i > 0; { r, size := utf8.DecodeLastRuneInString(s[0:i]); i -= size;
    if f(r) == truth { return i } }; return -1\<close>.
  The loop only ever looks at the prefix \<open>s[0:i]\<close>, which is the argument here.
\<close>

function lastIndexFunc :: "string \<Rightarrow> (nat \<Rightarrow> bool) \<Rightarrow> bool \<Rightarrow> int" where
  "lastIndexFunc s f truth =
     (if s = [] then - 1
      else
        let (r, size) = DecodeLastRuneInString s; i = length s - size in
        if f r = truth then int i else lastIndexFunc (take i s) f truth)"
  by pat_completeness auto
termination
proof (relation "measure (\<lambda>(s, f, truth). length s)", goal_cases)
  case 1
  show ?case by simp
next
  case (2 s f truth x r size i)
  then have eq: "DecodeLastRuneInString s = (r, size)"
    by simp
  from 2 have "1 \<le> snd (DecodeLastRuneInString s)"
    by (intro DecodeLastRuneInString_width)
  then have "1 \<le> size"
    by (simp add: eq)
  with 2 show ?case by simp
qed

declare lastIndexFunc.simps [simp del]

definition TrimRightFunc :: "string \<Rightarrow> (nat \<Rightarrow> bool) \<Rightarrow> string" where
  "TrimRightFunc s f =
     (let i = lastIndexFunc s f False;
          i = (if i \<ge> 0 \<and> (of_char (s ! nat i) :: nat) \<ge> RuneSelf
               then i + int (snd (DecodeRuneInString (drop (nat i) s)))
               else i + 1)
      in take (nat i) s)"

definition TrimFunc :: "string \<Rightarrow> (nat \<Rightarrow> bool) \<Rightarrow> string" where
  "TrimFunc s f = TrimRightFunc (TrimLeftFunc s f) f"

text \<open>
  \<open>strings.TrimSpace\<close> has a fast path for ASCII. Its first loop skips leading ASCII
  space and hands over to \<open>TrimFunc\<close> at the first byte that is not ASCII; its second
  loop, \<open>TrimSpace_stop\<close> here, runs from the end of what is left, \<open>s[start:]\<close>, and hands
  over to \<open>TrimRightFunc\<close> in the same way.
\<close>

function TrimSpace_stop :: "string \<Rightarrow> string" where
  "TrimSpace_stop s =
     (if s = [] then []
      else if (of_char (last s) :: nat) \<ge> RuneSelf then TrimRightFunc s IsSpace
      else if asciiSpace (last s) then TrimSpace_stop (butlast s)
      else s)"
  by pat_completeness auto
termination
  by (relation "measure length") auto

declare TrimSpace_stop.simps [simp del]

fun TrimSpace :: "string \<Rightarrow> string" where
  "TrimSpace [] = []"
| "TrimSpace (c # s) =
     (if (of_char c :: nat) \<ge> RuneSelf then TrimFunc (c # s) IsSpace
      else if asciiSpace c then TrimSpace s
      else TrimSpace_stop (c # s))"

text \<open>\<open>strings.Cut(s, sep)\<close> for a separator of one byte: the text before the first
  \<open>sep\<close>, the text after it, and whether \<open>sep\<close> was found.\<close>

definition Cut :: "string \<Rightarrow> char \<Rightarrow> string \<times> string \<times> bool" where
  "Cut s sep = (takeWhile (\<lambda>c. c \<noteq> sep) s, drop 1 (dropWhile (\<lambda>c. c \<noteq> sep) s), sep \<in> set s)"

subsection \<open>Package net/url\<close>

text \<open>
  Of the escaping modes of net/url, \<open>DSN\<close> reaches two: \<open>encodeHost\<close>, through
  \<open>URL.String\<close>, and \<open>encodeQueryComponent\<close>, through \<open>Values.Encode\<close>.
  \<open>shouldEscape\<close> keeps letters and digits, in a host also the sub-delimiters, the colon,
  the brackets, the angle brackets and the double quote, then the marks \<open>- _ . ~\<close>; every
  other byte is escaped in these two modes.
\<close>

datatype encoding = encodeHost | encodeQueryComponent

definition within :: "char \<Rightarrow> char \<Rightarrow> char \<Rightarrow> bool" where
  "within lo hi c = (lo \<le> c \<and> c \<le> hi)"

definition alphanum :: "char \<Rightarrow> bool" where
  "alphanum c = (within CHR ''a'' CHR ''z'' c \<or> within CHR ''A'' CHR ''Z'' c \<or> within CHR ''0'' CHR ''9'' c)"

definition shouldEscape :: "char \<Rightarrow> encoding \<Rightarrow> bool" where
  "shouldEscape c mode =
     (if alphanum c then False
      else if mode = encodeHost
              \<and> c \<in> set ''!$&'' \<union> {CHR 0x27} \<union> set ''()*+,;=:[]<>'' \<union> {CHR 0x22}
        then False
      else if c \<in> set ''-_.~'' then False
      else True)"

definition upperhex :: "nat \<Rightarrow> char" where
  "upperhex n = ''0123456789ABCDEF'' ! n"

definition escape_byte :: "encoding \<Rightarrow> char \<Rightarrow> string" where
  "escape_byte mode c =
     (if c = CHR '' '' \<and> mode = encodeQueryComponent then ''+''
      else if shouldEscape c mode
        then [CHR ''%'', upperhex (of_char c div 16), upperhex (of_char c mod 16)]
      else [c])"

definition escape :: "string \<Rightarrow> encoding \<Rightarrow> string" where
  "escape s mode = concat (map (escape_byte mode) s)"

definition QueryEscape :: "string \<Rightarrow> string" where
  "QueryEscape s = escape s encodeQueryComponent"

definition ishex :: "char \<Rightarrow> bool" where
  "ishex c = (within CHR ''0'' CHR ''9'' c \<or> within CHR ''a'' CHR ''f'' c \<or> within CHR ''A'' CHR ''F'' c)"

definition unhex :: "char \<Rightarrow> nat" where
  "unhex c =
     (if within CHR ''0'' CHR ''9'' c then of_char c - of_char CHR ''0''
      else if within CHR ''a'' CHR ''f'' c then of_char c - of_char CHR ''a'' + 10
      else if within CHR ''A'' CHR ''F'' c then of_char c - of_char CHR ''A'' + 10
      else 0)"

text \<open>
  The errors of net/url that parsing a query can report: \<open>EscapeError\<close> carries the
  offending text (at most three bytes from the percent sign on).
\<close>

datatype url_error = EscapeError string | InvalidSemicolon

text \<open>
  \<open>url.QueryUnescape\<close>: a percent sign must be followed by two hexadecimal digits and
  stands for that byte, a plus sign stands for a space. The Go source checks the whole
  string first and converts it in a second pass; the result is that of failing at the
  first malformed escape, whose text the error carries.
\<close>

fun QueryUnescape :: "string \<Rightarrow> url_error + string" where
  "QueryUnescape [] = Inr []"
| "QueryUnescape (c # s) =
     (if c = CHR ''%'' then
        (if length s < 2 \<or> \<not> ishex (s ! 0) \<or> \<not> ishex (s ! 1)
         then Inl (EscapeError (take 3 (c # s)))
         else map_sum id ((#) (char_of (unhex (s ! 0) * 16 + unhex (s ! 1))))
                (QueryUnescape (drop 2 s)))
      else if c = CHR ''+'' then map_sum id ((#) CHR '' '') (QueryUnescape s)
      else map_sum id ((#) c) (QueryUnescape s))"

text \<open>
  \<open>url.Values\<close> is a \<open>map[string][]string\<close>. It is kept as an association list with
  one entry per key; the order of the entries has no meaning, as in the Go map, and
  nothing below depends on it: \<open>Encode\<close> sorts the keys, and the loop of \<open>DSN\<close> over the
  map is given its iteration order separately.
\<close>

type_synonym Values = "(string \<times> string list) list"

definition Values_lookup :: "Values \<Rightarrow> string \<Rightarrow> string list" where
  "Values_lookup v key = (case map_of v key of None \<Rightarrow> [] | Some vs \<Rightarrow> vs)"

text \<open>\<open>Values.Add\<close>: \<^verbatim>\<open>v[key] = append(v[key], value)\<close>.\<close>

definition Values_Add :: "string \<Rightarrow> string \<Rightarrow> Values \<Rightarrow> Values" where
  "Values_Add key value v = AList.update key (Values_lookup v key @ [value]) v"

text \<open>\<open>Values.Del\<close>: \<^verbatim>\<open>delete(v, key)\<close>.\<close>

definition Values_Del :: "string \<Rightarrow> Values \<Rightarrow> Values" where
  "Values_Del key v = AList.delete key v"

text \<open>
  \<open>Values.Encode\<close> walks the keys in sorted order and writes \<open>key=value\<close> for every value
  of the key, both escaped, with \<open>&\<close> before each pair but the first
  (\<^verbatim>\<open>if buf.Len() > 0 { buf.WriteByte('&') }\<close>).
\<close>

definition write_pair :: "string \<Rightarrow> string \<Rightarrow> string \<Rightarrow> string" where
  "write_pair keyEscaped buf value =
     (if length buf > 0 then buf @ ''&'' else buf) @ keyEscaped @ ''='' @ QueryEscape value"

definition Values_Encode :: "Values \<Rightarrow> string" where
  "Values_Encode v =
     (if length v = 0 then ''''
      else foldl (\<lambda>buf k. foldl (write_pair (QueryEscape k)) buf (Values_lookup v k)) ''''
             (sort (map fst v)))"

lemma Cut_rest_shorter:
  assumes "(key, query, found) = Cut (c # cs) sep"
  shows "length query < Suc (length cs)"
proof -
  have "length (drop 1 (dropWhile (\<lambda>x. x \<noteq> sep) (c # cs))) < Suc (length cs)"
    using length_dropWhile_le [of "\<lambda>x. x \<noteq> sep" cs] by auto
  with assms show ?thesis
    by (simp add: Cut_def)
qed

text \<open>
  \<open>url.ParseQuery\<close> (its loop \<open>parseQuery\<close>) splits the query at \<open>&\<close>, skips empty
  settings, reports a setting that holds a semicolon, cuts each remaining one at its
  first \<open>=\<close> and unescapes both sides. It carries on after an error and returns the
  values it could read; of the escape errors it keeps the first, while a semicolon
  overwrites the error each time.
\<close>

function parseQuery :: "Values \<Rightarrow> url_error option \<Rightarrow> string \<Rightarrow> Values \<times> url_error option" where
  "parseQuery m err [] = (m, err)"
| "parseQuery m err (c # cs) =
     (let (key, query, _) = Cut (c # cs) CHR ''&'' in
      if CHR '';'' \<in> set key then parseQuery m (Some InvalidSemicolon) query
      else if key = [] then parseQuery m err query
      else
        let (key, value, _) = Cut key CHR ''='' in
        case QueryUnescape key of
          Inl err1 \<Rightarrow> parseQuery m (if err = None then Some err1 else err) query
        | Inr key \<Rightarrow>
            (case QueryUnescape value of
               Inl err1 \<Rightarrow> parseQuery m (if err = None then Some err1 else err) query
             | Inr value \<Rightarrow> parseQuery (Values_Add key value m) err query))"
  by pat_completeness auto
termination
  by (relation "measure (\<lambda>(m, err, query). length query)")
    (auto dest!: Cut_rest_shorter)

definition ParseQuery :: "string \<Rightarrow> Values \<times> url_error option" where
  "ParseQuery query = parseQuery [] None query"

text \<open>
  Of \<open>url.URL\<close> the function \<open>DSN\<close> sets \<open>Scheme\<close>, \<open>Host\<close> and \<open>RawQuery\<close>; the other
  fields (\<open>Opaque\<close>, \<open>User\<close>, \<open>Path\<close>, \<open>Fragment\<close>, \<open>ForceQuery\<close>, \<open>OmitHost\<close>) keep their
  zero values, and \<open>URL.String\<close> is written for that case: the scheme and a colon, two
  slashes and the escaped host when there is a host, and a question mark and the raw
  query when there is a query.
\<close>

record URL =
  Scheme :: string
  Host :: string
  RawQuery :: string

definition URL_Query :: "URL \<Rightarrow> Values" where
  "URL_Query u = fst (ParseQuery (RawQuery u))"

definition URL_String :: "URL \<Rightarrow> string" where
  "URL_String u =
     (if Scheme u \<noteq> '''' then Scheme u @ '':'' else '''')
     @ (if Scheme u \<noteq> '''' \<or> Host u \<noteq> '''' then
          (if Host u \<noteq> '''' then ''//'' @ escape (Host u) encodeHost else '''')
        else '''')
     @ (if RawQuery u \<noteq> '''' then ''?'' @ RawQuery u else '''')"

subsection \<open>The environment and the runtime\<close>

text \<open>
  The process environment maps variable names to values. \<open>os.Getenv\<close> returns the value,
  and the empty string for a variable that is not set.
\<close>

type_synonym environ = "string \<rightharpoonup> string"

definition Getenv :: "environ \<Rightarrow> string \<Rightarrow> string" where
  "Getenv env key = (case env key of None \<Rightarrow> '''' | Some v \<Rightarrow> v)"

subsection \<open>DSN\<close>

text \<open>
  The loop of \<open>DSN\<close> over the query,
  \<^verbatim>\<open>for key, values := range query { if len(values) >= 1 && strings.TrimSpace(values[0]) == "" { query.Del(key) } }\<close>,
  visits the entries of a Go map in an order the runtime chooses. \<open>range_body\<close> is one
  iteration; an entry that is no longer in the map is not produced. \<open>range_query\<close> runs
  the iterations in the order \<open>order\<close>, a list of the keys.
\<close>

definition range_body :: "Values \<Rightarrow> string \<Rightarrow> Values" where
  "range_body query key =
     (case map_of query key of
        None \<Rightarrow> query
      | Some values \<Rightarrow>
          if length values \<ge> 1 \<and> TrimSpace (values ! 0) = '''' then Values_Del key query
          else query)"

definition range_query :: "string list \<Rightarrow> Values \<Rightarrow> Values" where
  "range_query order query = foldl range_body query order"

text \<open>
  \<open>DSN\<close> as in connection.go. Its inputs are the environment, the value of
  \<open>runtime.NumCPU()\<close> and the order in which the runtime iterates over the query.
  The variable \<open>tz\<close> is read and defaulted as in the source, and not used after that.
\<close>

definition DSN :: "environ \<Rightarrow> int \<Rightarrow> string list \<Rightarrow> string" where
  "DSN env NumCPU order =
     (let uri = \<lparr>Scheme = ''postgresql'', Host = Getenv env ''PGHOST'', RawQuery = ''''\<rparr>;
          uri = (if Host uri = '''' then uri\<lparr>Host := ''localhost''\<rparr> else uri);
          user = Getenv env ''PGUSER'';
          password = Getenv env ''PGPASSWORD'';
          port = Getenv env ''PGPORT'';
          port = (if port = '''' then ''5432'' else port);
          timeout = Getenv env ''PGCONNECT_TIMEOUT'';
          timeout = (if timeout = '''' then ''10'' else timeout);
          application = Getenv env ''PGAPPNAME'';
          sslmode = Getenv env ''PGSSLMODE'';
          root = Getenv env ''PGSSLROOTCERT'';
          maxconnections = Getenv env ''PGPOOLMAXCONNECTIONS'';
          maxconnections =
            (if maxconnections = '''' then
               (let value = 4; cpu = NumCPU;
                    value = (if value < cpu then cpu else value)
                in Itoa value)
             else maxconnections);
          minconnections = Getenv env ''PGPOOLMINCONNECTIONS'';
          minconnections = (if minconnections = '''' then Itoa 1 else minconnections);
          tz = Getenv env ''PGTZ'';
          tz = (if tz = '''' then ''UTC'' else tz);
          query = URL_Query uri;
          query = Values_Add ''user'' user query;
          query = Values_Add ''password'' password query;
          query = Values_Add ''port'' port query;
          query = Values_Add ''connect_timeout'' timeout query;
          query = Values_Add ''application_name'' application query;
          query = Values_Add ''pool_max_conns'' maxconnections query;
          query = Values_Add ''pool_min_conns'' minconnections query;
          query = Values_Add ''sslmode'' sslmode query;
          query = Values_Add ''sslrootcert'' root query;
          query = range_query order query;
          uri = uri\<lparr>RawQuery := Values_Encode query\<rparr>
      in URL_String uri)"

text \<open>
  \<open>DSN\<close> as in the second copy of the file (src/unnamed/part_002), which differs in one
  variable: it reads \<open>PGSSLCERTMODE\<close> and adds it to the query as \<open>sslcertmode\<close>.
\<close>

definition DSN_part_002 :: "environ \<Rightarrow> int \<Rightarrow> string list \<Rightarrow> string" where
  "DSN_part_002 env NumCPU order =
     (let uri = \<lparr>Scheme = ''postgresql'', Host = Getenv env ''PGHOST'', RawQuery = ''''\<rparr>;
          uri = (if Host uri = '''' then uri\<lparr>Host := ''localhost''\<rparr> else uri);
          user = Getenv env ''PGUSER'';
          password = Getenv env ''PGPASSWORD'';
          port = Getenv env ''PGPORT'';
          port = (if port = '''' then ''5432'' else port);
          timeout = Getenv env ''PGCONNECT_TIMEOUT'';
          timeout = (if timeout = '''' then ''10'' else timeout);
          application = Getenv env ''PGAPPNAME'';
          sslmode = Getenv env ''PGSSLMODE'';
          certmode = Getenv env ''PGSSLCERTMODE'';
          root = Getenv env ''PGSSLROOTCERT'';
          maxconnections = Getenv env ''PGPOOLMAXCONNECTIONS'';
          maxconnections =
            (if maxconnections = '''' then
               (let value = 4; cpu = NumCPU;
                    value = (if value < cpu then cpu else value)
                in Itoa value)
             else maxconnections);
          minconnections = Getenv env ''PGPOOLMINCONNECTIONS'';
          minconnections = (if minconnections = '''' then Itoa 1 else minconnections);
          tz = Getenv env ''PGTZ'';
          tz = (if tz = '''' then ''UTC'' else tz);
          query = URL_Query uri;
          query = Values_Add ''user'' user query;
          query = Values_Add ''password'' password query;
          query = Values_Add ''port'' port query;
          query = Values_Add ''connect_timeout'' timeout query;
          query = Values_Add ''application_name'' application query;
          query = Values_Add ''pool_max_conns'' maxconnections query;
          query = Values_Add ''pool_min_conns'' minconnections query;
          query = Values_Add ''sslmode'' sslmode query;
          query = Values_Add ''sslcertmode'' certmode query;
          query = Values_Add ''sslrootcert'' root query;
          query = range_query order query;
          uri = uri\<lparr>RawQuery := Values_Encode query\<rparr>
      in URL_String uri)"

text \<open>
  Reading a connection string back, as \<open>url.Parse\<close> followed by \<open>URL.Query\<close> does it:
  the fragment is cut off at the first \<open>#\<close>, the raw query is what follows the first
  \<open>?\<close> of the rest, and \<open>ParseQuery\<close> reads it. \<open>Values_Has\<close> is \<open>Values.Has\<close>,
  \<open>Values_Get\<close> is \<open>Values.Get\<close>: the first value of the key, the empty string when
  there is none.
\<close>

definition RawQuery_of :: "string \<Rightarrow> string" where
  "RawQuery_of rawURL =
     (let (u, frag, _) = Cut rawURL CHR ''#''; (rest, rawquery, _) = Cut u CHR ''?''
      in rawquery)"

definition Query_of :: "string \<Rightarrow> Values" where
  "Query_of rawURL = fst (ParseQuery (RawQuery_of rawURL))"

definition Values_Has :: "Values \<Rightarrow> string \<Rightarrow> bool" where
  "Values_Has v key = (map_of v key \<noteq> None)"

definition Values_Get :: "Values \<Rightarrow> string \<Rightarrow> string" where
  "Values_Get v key = (let vs = Values_lookup v key in if length vs = 0 then '''' else vs ! 0)"

subsection \<open>Errors and logging\<close>

text \<open>
  Go \<open>error\<close> values, as far as the package tells them apart: \<open>pgx.ErrTxClosed\<close>, an
  error that wraps another one, and any other error, each with the text its \<open>Error()\<close>
  method returns. \<open>NilDereference\<close> stands for the run-time panic of calling
  \<open>Acquire\<close> on a nil pool. \<open>errors.Is\<close> follows the chain of wrapped errors.
\<close>

datatype error = ErrTxClosed | ErrWrap string error | ErrOther string | NilDereference

fun Error_text :: "error \<Rightarrow> string" where
  "Error_text ErrTxClosed = ''tx is closed''"
| "Error_text (ErrWrap msg e) = msg"
| "Error_text (ErrOther msg) = msg"
| "Error_text NilDereference = ''invalid memory address or nil pointer dereference''"

fun errors_Is :: "error \<Rightarrow> error \<Rightarrow> bool" where
  "errors_Is (ErrWrap msg e) target = (ErrWrap msg e = target \<or> errors_Is e target)"
| "errors_Is e target = (e = target)"

text \<open>A record of package slog: the level, the message and the attributes.\<close>

datatype level = LevelInfo | LevelError

datatype log_record = Log level string "(string \<times> string) list"

subsection \<open>Connection\<close>

text \<open>
  The pooling library pgxpool is outside the package. \<open>Connection\<close> uses three of its
  functions, which are parameters here: \<open>ParseConfig\<close> turns a connection string into
  a configuration or fails, \<open>NewWithConfig\<close> builds a pool or fails (\<open>None\<close> is the nil
  error), and \<open>Acquire\<close> leases a connection of a pool or fails. A pool instance is
  identified by the number of pools built before it, and carries its configuration.
\<close>

datatype 'cfg pool = Instance nat 'cfg

record ('ctx, 'cfg, 'conn) pgxpool =
  ParseConfig :: "string \<Rightarrow> error + 'cfg"
  NewWithConfig :: "'ctx \<Rightarrow> 'cfg \<Rightarrow> error option"
  Acquire :: "'ctx \<Rightarrow> 'cfg pool \<Rightarrow> error + 'conn"

text \<open>
  The state of the process that \<open>Connection\<close> reads and writes: the package variable
  \<open>Pool\<close> (an \<open>atomic.Pointer\<close>, \<open>None\<close> when nil), the log, and a counter of the pools
  that \<open>NewWithConfig\<close> has built, which the program itself does not keep.
\<close>

record 'cfg state =
  Pool :: "'cfg pool option"
  constructed :: nat
  log :: "log_record list"

definition Pool_Acquire :: "('ctx, 'cfg, 'conn) pgxpool \<Rightarrow> 'ctx \<Rightarrow> 'cfg state \<Rightarrow> error + 'conn" where
  "Pool_Acquire lib ctx s =
     (case Pool s of None \<Rightarrow> Inl NilDereference | Some p \<Rightarrow> Acquire lib ctx p)"

text \<open>
  \<open>Connection\<close> run from start to end with nothing in between, as one caller alone
  runs it. It returns the connection (\<open>Inr\<close>) or the error (\<open>Inl\<close>, with a nil
  connection), and the new state.
\<close>

definition Connection ::
  "('ctx, 'cfg, 'conn) pgxpool \<Rightarrow> 'ctx \<Rightarrow> string \<Rightarrow> 'cfg state \<Rightarrow> (error + 'conn) \<times> 'cfg state" where
  "Connection lib ctx uri s =
     (if Pool s = None then
        (case ParseConfig lib uri of
           Inl e \<Rightarrow>
             (Inl e, s\<lparr>log := log s @ [Log LevelError
                ''Unable to Generate Configuration from DSN String'' [(''error'', Error_text e)]]\<rparr>)
         | Inr configuration \<Rightarrow>
             (case NewWithConfig lib ctx configuration of
                Some e \<Rightarrow>
                  (Inl e, s\<lparr>log := log s @ [Log LevelError
                     ''Unable to Establish Pool Connection to Database'' [(''error'', Error_text e)]]\<rparr>)
              | None \<Rightarrow>
                  (let instance = Instance (constructed s) configuration;
                       s = s\<lparr>constructed := Suc (constructed s)\<rparr>;
                       s = s\<lparr>Pool := Some instance\<rparr>
                   in (Pool_Acquire lib ctx s, s))))
      else (Pool_Acquire lib ctx s, s))"

text \<open>
  Several goroutines may call \<open>Connection\<close> at once. The accesses to \<open>Pool\<close> are atomic
  loads and stores, so a run of the process is an interleaving of the callers' steps
  between them. A caller is at one of these points of the function: before the first
  \<open>Pool.Load()\<close> (line 107), before \<open>ParseConfig\<close> (108), before \<open>NewWithConfig\<close> with
  its configuration (114), before \<open>Pool.Store\<close> with the pool it built (120), before
  the final \<open>Pool.Load().Acquire\<close> (123), or it has returned.
\<close>

datatype ('cfg, 'conn) pc =
  AtLoad | AtParseConfig | AtNewWithConfig 'cfg | AtStore "'cfg pool" | AtAcquire
  | Returned "error + 'conn"

record ('ctx, 'cfg, 'conn) caller =
  ctx_of :: 'ctx
  uri_of :: string
  at :: "('cfg, 'conn) pc"

definition step ::
  "('ctx, 'cfg, 'conn) pgxpool \<Rightarrow> ('ctx, 'cfg, 'conn) caller \<Rightarrow> 'cfg state
     \<Rightarrow> ('ctx, 'cfg, 'conn) caller \<times> 'cfg state" where
  "step lib c s =
     (case at c of
        AtLoad \<Rightarrow> (if Pool s = None then (c\<lparr>at := AtParseConfig\<rparr>, s) else (c\<lparr>at := AtAcquire\<rparr>, s))
      | AtParseConfig \<Rightarrow>
          (case ParseConfig lib (uri_of c) of
             Inl e \<Rightarrow>
               (c\<lparr>at := Returned (Inl e)\<rparr>, s\<lparr>log := log s @ [Log LevelError
                  ''Unable to Generate Configuration from DSN String'' [(''error'', Error_text e)]]\<rparr>)
           | Inr configuration \<Rightarrow> (c\<lparr>at := AtNewWithConfig configuration\<rparr>, s))
      | AtNewWithConfig configuration \<Rightarrow>
          (case NewWithConfig lib (ctx_of c) configuration of
             Some e \<Rightarrow>
               (c\<lparr>at := Returned (Inl e)\<rparr>, s\<lparr>log := log s @ [Log LevelError
                  ''Unable to Establish Pool Connection to Database'' [(''error'', Error_text e)]]\<rparr>)
           | None \<Rightarrow>
               (c\<lparr>at := AtStore (Instance (constructed s) configuration)\<rparr>,
                s\<lparr>constructed := Suc (constructed s)\<rparr>))
      | AtStore instance \<Rightarrow> (c\<lparr>at := AtAcquire\<rparr>, s\<lparr>Pool := Some instance\<rparr>)
      | AtAcquire \<Rightarrow> (c\<lparr>at := Returned (Pool_Acquire lib (ctx_of c) s)\<rparr>, s)
      | Returned r \<Rightarrow> (c, s))"

text \<open>
  A schedule names, step by step, the caller that moves next; a number that names no
  caller is skipped.
\<close>

fun run ::
  "('ctx, 'cfg, 'conn) pgxpool \<Rightarrow> nat list \<Rightarrow> ('ctx, 'cfg, 'conn) caller list \<times> 'cfg state
     \<Rightarrow> ('ctx, 'cfg, 'conn) caller list \<times> 'cfg state" where
  "run lib [] (cs, s) = (cs, s)"
| "run lib (i # schedule) (cs, s) =
     (if i < length cs then
        (let (c, s) = step lib (cs ! i) s in run lib schedule (cs[i := c], s))
      else run lib schedule (cs, s))"

subsection \<open>Disconnect\<close>

text \<open>
  \<open>Disconnect\<close> takes a connection and a transaction, each of which may be nil
  (\<open>None\<close>). What it does to the outside is a sequence of effects: a call of
  \<open>tx.Rollback\<close>, a log record, a call of \<open>connection.Release\<close>. The result of the
  rollback is given by the parameter \<open>Rollback\<close> (\<open>None\<close> is the nil error). The Go
  function has no result.
\<close>

datatype ('conn, 'tx) effect = RollbackCalled 'tx | Logged log_record | ReleaseCalled 'conn

definition Disconnect ::
  "('ctx \<Rightarrow> 'tx \<Rightarrow> error option) \<Rightarrow> 'ctx \<Rightarrow> 'conn option \<Rightarrow> 'tx option
     \<Rightarrow> ('conn, 'tx) effect list \<Rightarrow> ('conn, 'tx) effect list" where
  "Disconnect Rollback ctx connection tx trace =
     (let trace =
        (case tx of
           None \<Rightarrow> trace
         | Some t \<Rightarrow>
             (let e = Rollback ctx t; trace = trace @ [RollbackCalled t] in
              if e \<noteq> None \<and> \<not> errors_Is (the e) ErrTxClosed then
                trace @ [Logged (Log LevelError ''Error Rolling Back Transaction''
                           [(''error'', Error_text (the e))])]
              else if e \<noteq> None \<and> errors_Is (the e) ErrTxClosed then
                trace @ [Logged (Log LevelInfo ''Successfully Committed Database Transaction'' [])]
              else if e = None then
                trace @ [Logged (Log LevelInfo ''Successfully Rolled Back Database Transaction'' [])]
              else trace))
      in case connection of None \<Rightarrow> trace | Some c \<Rightarrow> trace @ [ReleaseCalled c])"

subsection \<open>A pooling library and a state to run the functions on\<close>

text \<open>
  A stand-in for the pooling library: it accepts the connection strings that start with
  \<open>postgresql://\<close>, always builds the pool, and hands out the pool itself as the
  connection, so that a connection tells which pool it came from. \<open>s0\<close> is the state of
  a process that has not called \<open>Connection\<close> yet.
\<close>

definition lib0 :: "(unit, string, string pool) pgxpool" where
  "lib0 = \<lparr>ParseConfig = (\<lambda>uri. if take 13 uri = ''postgresql://'' then Inr uri
                                else Inl (ErrOther ''cannot parse connection string'')),
           NewWithConfig = (\<lambda>ctx cfg. None),
           Acquire = (\<lambda>ctx p. Inr p)\<rparr>"

definition s0 :: "string state" where
  "s0 = \<lparr>Pool = None, constructed = 0, log = []\<rparr>"

text \<open>The record that \<open>Disconnect\<close> logs for a result of \<open>Rollback\<close>.\<close>

definition rollback_record :: "error option \<Rightarrow> log_record" where
  "rollback_record e =
     (case e of
        None \<Rightarrow> Log LevelInfo ''Successfully Rolled Back Database Transaction'' []
      | Some err \<Rightarrow>
          if errors_Is err ErrTxClosed
          then Log LevelInfo ''Successfully Committed Database Transaction'' []
          else Log LevelError ''Error Rolling Back Transaction'' [(''error'', Error_text err)])"

subsection \<open>Notions used to state and prove the properties of DSN\<close>

text \<open>
  The host of the connection string, and the pairs that \<open>DSN\<close> adds to the query, in
  the order of its calls of \<open>query.Add\<close>: each key with its resolved value, that is the
  value of the variable or, for the four variables that have one, the default.
  \<open>resolved\<close> lists the pairs of connection.go, \<open>resolved_part_002\<close> those of the second
  copy. That \<open>DSN\<close> adds exactly these is \<open>DSN_unfold\<close> below.
\<close>

definition host_of :: "environ \<Rightarrow> string" where
  "host_of env = (if Getenv env ''PGHOST'' = '''' then ''localhost'' else Getenv env ''PGHOST'')"

definition resolved :: "environ \<Rightarrow> int \<Rightarrow> (string \<times> string) list" where
  "resolved env NumCPU =
     [(''user'', Getenv env ''PGUSER''),
      (''password'', Getenv env ''PGPASSWORD''),
      (''port'', if Getenv env ''PGPORT'' = '''' then ''5432'' else Getenv env ''PGPORT''),
      (''connect_timeout'',
         if Getenv env ''PGCONNECT_TIMEOUT'' = '''' then ''10'' else Getenv env ''PGCONNECT_TIMEOUT''),
      (''application_name'', Getenv env ''PGAPPNAME''),
      (''pool_max_conns'',
         if Getenv env ''PGPOOLMAXCONNECTIONS'' = '''' then Itoa (if 4 < NumCPU then NumCPU else 4)
         else Getenv env ''PGPOOLMAXCONNECTIONS''),
      (''pool_min_conns'',
         if Getenv env ''PGPOOLMINCONNECTIONS'' = '''' then Itoa 1
         else Getenv env ''PGPOOLMINCONNECTIONS''),
      (''sslmode'', Getenv env ''PGSSLMODE''),
      (''sslrootcert'', Getenv env ''PGSSLROOTCERT'')]"

definition resolved_part_002 :: "environ \<Rightarrow> int \<Rightarrow> (string \<times> string) list" where
  "resolved_part_002 env NumCPU =
     [(''user'', Getenv env ''PGUSER''),
      (''password'', Getenv env ''PGPASSWORD''),
      (''port'', if Getenv env ''PGPORT'' = '''' then ''5432'' else Getenv env ''PGPORT''),
      (''connect_timeout'',
         if Getenv env ''PGCONNECT_TIMEOUT'' = '''' then ''10'' else Getenv env ''PGCONNECT_TIMEOUT''),
      (''application_name'', Getenv env ''PGAPPNAME''),
      (''pool_max_conns'',
         if Getenv env ''PGPOOLMAXCONNECTIONS'' = '''' then Itoa (if 4 < NumCPU then NumCPU else 4)
         else Getenv env ''PGPOOLMAXCONNECTIONS''),
      (''pool_min_conns'',
         if Getenv env ''PGPOOLMINCONNECTIONS'' = '''' then Itoa 1
         else Getenv env ''PGPOOLMINCONNECTIONS''),
      (''sslmode'', Getenv env ''PGSSLMODE''),
      (''sslcertmode'', Getenv env ''PGSSLCERTMODE''),
      (''sslrootcert'', Getenv env ''PGSSLROOTCERT'')]"

text \<open>
  The keys of the query when the loop of \<open>DSN\<close> starts. The runtime iterates over
  them in some order, each key once: \<open>range_order\<close> says that a list is such an order.
\<close>

definition DSN_keys :: "string list" where
  "DSN_keys = [''user'', ''password'', ''port'', ''connect_timeout'', ''application_name'',
     ''pool_max_conns'', ''pool_min_conns'', ''sslmode'', ''sslrootcert'']"

definition DSN_part_002_keys :: "string list" where
  "DSN_part_002_keys = [''user'', ''password'', ''port'', ''connect_timeout'', ''application_name'',
     ''pool_max_conns'', ''pool_min_conns'', ''sslmode'', ''sslcertmode'', ''sslrootcert'']"

definition range_order :: "string list \<Rightarrow> string list \<Rightarrow> bool" where
  "range_order keys order = (distinct order \<and> set order = set keys)"

text \<open>
  A value is blank when \<open>TrimSpace\<close> leaves nothing of it: it is empty or consists of
  white space. \<open>kept\<close> are the pairs whose value is not blank.
\<close>

definition blank :: "string \<Rightarrow> bool" where
  "blank v = (TrimSpace v = '''')"

definition kept :: "(string \<times> string) list \<Rightarrow> (string \<times> string) list" where
  "kept L = filter (\<lambda>kv. \<not> blank (snd kv)) L"

text \<open>
  The text \<open>key=value\<close> of one pair in an encoded query, the texts joined by \<open>&\<close>,
  and the query of a list of pairs: the pairs that are kept, sorted by key.
  \<open>single\<close> is the entry of a pair in a \<open>Values\<close> map. \<open>splitting\<close> is
  \<open>strings.Split\<close> for a separator of one byte.
\<close>

definition setting :: "string \<times> string \<Rightarrow> string" where
  "setting kv = QueryEscape (fst kv) @ ''='' @ QueryEscape (snd kv)"

fun join_amp :: "string list \<Rightarrow> string" where
  "join_amp [] = []"
| "join_amp [x] = x"
| "join_amp (x # y # ys) = x @ ''&'' @ join_amp (y # ys)"

definition single :: "string \<times> string \<Rightarrow> string \<times> string list" where
  "single kv = (fst kv, [snd kv])"

definition raw_query :: "(string \<times> string) list \<Rightarrow> string" where
  "raw_query L = join_amp (map setting (kept (sort_key fst L)))"

fun splitting :: "char \<Rightarrow> string \<Rightarrow> string list" where
  "splitting sep [] = [[]]"
| "splitting sep (c # cs) =
     (if c = sep then [] # splitting sep cs
      else (case splitting sep cs of [] \<Rightarrow> [[c]] | x # xs \<Rightarrow> (c # x) # xs))"

text \<open>
  The entries that the loop of \<open>DSN\<close> deletes, the bytes that \<open>QueryEscape\<close> can
  produce, and the connection string of a host and a list of pairs.
\<close>

definition dead :: "string list \<Rightarrow> bool" where
  "dead values = (length values \<ge> 1 \<and> TrimSpace (values ! 0) = '''')"

definition query_safe :: "char \<Rightarrow> bool" where
  "query_safe c = (alphanum c \<or> c \<in> set ''-_.~+%'')"

definition assemble :: "string \<Rightarrow> (string \<times> string) list \<Rightarrow> string list \<Rightarrow> string" where
  "assemble host L order =
     URL_String \<lparr>Scheme = ''postgresql'', Host = host,
       RawQuery = Values_Encode (range_query order (map single L))\<rparr>"

text \<open>The variables that \<open>DSN\<close> reads with \<open>os.Getenv\<close>; connection.go reads all of
  them but \<open>PGSSLCERTMODE\<close>.\<close>

definition DSN_variables :: "string list" where
  "DSN_variables = [''PGHOST'', ''PGUSER'', ''PGPASSWORD'', ''PGPORT'', ''PGCONNECT_TIMEOUT'',
     ''PGAPPNAME'', ''PGSSLMODE'', ''PGSSLCERTMODE'', ''PGSSLROOTCERT'', ''PGPOOLMAXCONNECTIONS'',
     ''PGPOOLMINCONNECTIONS'', ''PGTZ'']"

text \<open>A byte that is ASCII and not white space: a value that starts and ends with such
  a byte is not blank.\<close>

definition graphic :: "char \<Rightarrow> bool" where
  "graphic c = ((of_char c :: nat) < RuneSelf \<and> \<not> asciiSpace c)"

subsection \<open>Escaping and reading back\<close>

lemma nibble_all: "list_all (\<lambda>n. ishex (upperhex n) \<and> unhex (upperhex n) = n \<and> alphanum (upperhex n)) [0..<16]"
  by code_simp

lemma upperhex_props:
  assumes "n < 16"
  shows "ishex (upperhex n)" and "unhex (upperhex n) = n" and "alphanum (upperhex n)"
proof -
  have "n \<in> set [0..<16]" using assms by simp
  with nibble_all show "ishex (upperhex n)" and "unhex (upperhex n) = n" and "alphanum (upperhex n)"
    unfolding list_all_iff by blast+
qed

lemma of_char_nibbles: "(of_char c :: nat) div 16 < 16" "(of_char c :: nat) mod 16 < 16"
  using nat_of_char_less_256 [of c] by (simp_all add: div_less_iff_less_mult)

lemma alphanum_not_special: "alphanum c \<Longrightarrow> c \<notin> set ''&=;#?%+ ''"
  by (auto simp: alphanum_def within_def less_eq_char_def)

lemma query_safe_not_special: "query_safe c \<Longrightarrow> c \<notin> set ''&=;#?''"
  using alphanum_not_special [of c] by (auto simp: query_safe_def)

lemma escape_byte_cases:
  "escape_byte encodeQueryComponent c = ''+'' \<and> c = CHR '' ''
   \<or> escape_byte encodeQueryComponent c = [CHR ''%'', upperhex (of_char c div 16), upperhex (of_char c mod 16)]
   \<or> escape_byte encodeQueryComponent c = [c] \<and> c \<noteq> CHR ''%'' \<and> c \<noteq> CHR ''+'' \<and> query_safe c"
  using alphanum_not_special [of c]
  by (auto simp: escape_byte_def shouldEscape_def query_safe_def)

lemma escape_byte_query_safe: "x \<in> set (escape_byte encodeQueryComponent c) \<Longrightarrow> query_safe x"
  using escape_byte_cases [of c] upperhex_props(3) [OF of_char_nibbles(1), of c]
    upperhex_props(3) [OF of_char_nibbles(2), of c]
  by (auto simp: query_safe_def)

lemma escape_byte_host_safe:
  "x \<in> set (escape_byte encodeHost c) \<Longrightarrow> x \<noteq> CHR ''?'' \<and> x \<noteq> CHR ''#''"
  using alphanum_not_special [of c] upperhex_props(3) [OF of_char_nibbles(1), of c]
    upperhex_props(3) [OF of_char_nibbles(2), of c]
    alphanum_not_special [of "upperhex (of_char c div 16)"]
    alphanum_not_special [of "upperhex (of_char c mod 16)"]
  by (auto simp: escape_byte_def shouldEscape_def split: if_splits)

lemma QueryUnescape_escape_byte:
  "QueryUnescape (escape_byte encodeQueryComponent c @ rest) = map_sum id ((#) c) (QueryUnescape rest)"
proof -
  consider "escape_byte encodeQueryComponent c = ''+''" "c = CHR '' ''"
    | "escape_byte encodeQueryComponent c = [CHR ''%'', upperhex (of_char c div 16), upperhex (of_char c mod 16)]"
    | "escape_byte encodeQueryComponent c = [c]" "c \<noteq> CHR ''%''" "c \<noteq> CHR ''+''"
    using escape_byte_cases [of c] by blast
  then show ?thesis
  proof cases
    case 1
    then show ?thesis by simp
  next
    case 2
    then show ?thesis
      by (simp add: upperhex_props of_char_nibbles)
  next
    case 3
    then show ?thesis by simp
  qed
qed

lemma QueryUnescape_QueryEscape_append:
  "QueryUnescape (QueryEscape s @ rest) = map_sum id ((@) s) (QueryUnescape rest)"
proof (induction s)
  case Nil
  show ?case by (cases "QueryUnescape rest") (simp_all add: QueryEscape_def escape_def)
next
  case (Cons c s)
  have "QueryUnescape (QueryEscape (c # s) @ rest)
      = map_sum id ((#) c) (QueryUnescape (QueryEscape s @ rest))"
    by (simp add: QueryEscape_def escape_def QueryUnescape_escape_byte del: QueryUnescape.simps)
  also have "\<dots> = map_sum id ((@) (c # s)) (QueryUnescape rest)"
    by (cases "QueryUnescape rest") (simp_all add: Cons.IH)
  finally show ?case .
qed

lemma QueryUnescape_QueryEscape: "QueryUnescape (QueryEscape s) = Inr s"
  using QueryUnescape_QueryEscape_append [of s "[]"] by simp

lemma QueryEscape_safe: "c \<in> set (QueryEscape s) \<Longrightarrow> query_safe c"
  using escape_byte_query_safe by (auto simp: QueryEscape_def escape_def)

lemma QueryEscape_not_special: "c \<in> set (QueryEscape s) \<Longrightarrow> c \<notin> set ''&=;#?''"
  using QueryEscape_safe query_safe_not_special by blast

lemma escape_host_safe: "c \<in> set (escape h encodeHost) \<Longrightarrow> c \<noteq> CHR ''?'' \<and> c \<noteq> CHR ''#''"
  using escape_byte_host_safe by (auto simp: escape_def)

lemma escape_byte_nonempty: "escape_byte mode c \<noteq> []"
  by (simp add: escape_byte_def)

lemma QueryEscape_empty_iff: "QueryEscape s = [] \<longleftrightarrow> s = []"
  by (cases s) (simp_all add: QueryEscape_def escape_def escape_byte_nonempty)

lemma Cut_found: "sep \<notin> set a \<Longrightarrow> Cut (a @ sep # b) sep = (a, b, True)"
  by (induction a) (auto simp: Cut_def)

lemma Cut_not_found: "sep \<notin> set a \<Longrightarrow> Cut a sep = (a, [], False)"
  by (induction a) (auto simp: Cut_def)

lemma join_amp_Cons: "join_amp (x # xs) = x @ (if xs = [] then [] else ''&'' @ join_amp xs)"
  by (cases xs) simp_all

lemma join_amp_glue: "join_amp ((b @ ''&'' @ s) # rest) = b @ ''&'' @ join_amp (s # rest)"
  by (cases rest) simp_all

lemma foldl_write_pair:
  "foldl (\<lambda>buf kv. write_pair (QueryEscape (fst kv)) buf (snd kv)) b L
     = (if b = [] then join_amp (map setting L) else join_amp (b # map setting L))"
proof (induction L arbitrary: b)
  case Nil
  show ?case by simp
next
  case (Cons kv L)
  have ne: "write_pair (QueryEscape (fst kv)) b (snd kv) \<noteq> []"
    by (simp add: write_pair_def)
  show ?case
    using ne by (simp add: Cons.IH) (simp add: write_pair_def setting_def join_amp_Cons)
qed

lemma map_sort_key: "map f (sort_key f xs) = sort (map f xs)"
proof (induction xs)
  case Nil
  show ?case by simp
next
  case (Cons x xs)
  have "map f (insort_key f x ys) = insort (f x) (map f ys)" for ys
    by (induction ys) simp_all
  with Cons show ?case by simp
qed

lemma lookup_single:
  assumes "distinct (map fst L)" and "kv \<in> set L"
  shows "Values_lookup (map single L) (fst kv) = [snd kv]"
proof -
  have "map_of (map single L) (fst kv) = Some [snd kv]"
    using assms by (induction L) (auto simp: single_def rev_image_eqI)
  then show ?thesis by (simp add: Values_lookup_def)
qed

lemma foldl_keys:
  assumes "\<And>kv. kv \<in> set S \<Longrightarrow> Values_lookup v (fst kv) = [snd kv]"
  shows "foldl (\<lambda>buf k. foldl (write_pair (QueryEscape k)) buf (Values_lookup v k)) b (map fst S)
       = foldl (\<lambda>buf kv. write_pair (QueryEscape (fst kv)) buf (snd kv)) b S"
  using assms by (induction S arbitrary: b) simp_all

lemma Values_Encode_single:
  assumes "distinct (map fst L)"
  shows "Values_Encode (map single L) = join_amp (map setting (sort_key fst L))"
proof -
  have keys: "map fst (map single L) = map fst L"
    by (simp add: single_def comp_def)
  have sorted_keys: "sort (map fst (map single L)) = map fst (sort_key fst L)"
    unfolding keys by (simp add: map_sort_key)
  have lk: "Values_lookup (map single L) (fst kv) = [snd kv]" if "kv \<in> set (sort_key fst L)" for kv
    using that assms by (simp add: lookup_single)
  have "foldl (\<lambda>buf k. foldl (write_pair (QueryEscape k)) buf (Values_lookup (map single L) k)) []
               (map fst (sort_key fst L))
             = foldl (\<lambda>buf kv. write_pair (QueryEscape (fst kv)) buf (snd kv)) [] (sort_key fst L)"
    by (rule foldl_keys) (rule lk)
  then have "foldl (\<lambda>buf k. foldl (write_pair (QueryEscape k)) buf (Values_lookup (map single L) k)) []
               (map fst (sort_key fst L))
             = join_amp (map setting (sort_key fst L))"
    by (simp add: foldl_write_pair)
  then show ?thesis
    unfolding Values_Encode_def sorted_keys by (cases L) simp_all
qed

lemma parseQuery_nonempty:
  "s \<noteq> [] \<Longrightarrow> parseQuery m err s =
     (let (key, query, _) = Cut s CHR ''&'' in
      if CHR '';'' \<in> set key then parseQuery m (Some InvalidSemicolon) query
      else if key = [] then parseQuery m err query
      else
        let (key, value, _) = Cut key CHR ''='' in
        case QueryUnescape key of
          Inl err1 \<Rightarrow> parseQuery m (if err = None then Some err1 else err) query
        | Inr key \<Rightarrow>
            (case QueryUnescape value of
               Inl err1 \<Rightarrow> parseQuery m (if err = None then Some err1 else err) query
             | Inr value \<Rightarrow> parseQuery (Values_Add key value m) err query))"
  by (cases s) simp_all

lemma setting_chars: "c \<in> set (setting kv) \<Longrightarrow> c \<noteq> CHR ''&'' \<and> c \<noteq> CHR '';'' \<and> c \<noteq> CHR ''#''"
  using QueryEscape_not_special [of c "fst kv"] QueryEscape_not_special [of c "snd kv"]
  by (auto simp: setting_def)

lemma setting_nonempty: "setting kv \<noteq> []"
  by (simp add: setting_def)

lemma Cut_setting: "Cut (setting kv) CHR ''='' = (QueryEscape (fst kv), QueryEscape (snd kv), True)"
proof -
  have "CHR ''='' \<notin> set (QueryEscape (fst kv))"
    using QueryEscape_not_special [of "CHR ''=''" "fst kv"] by auto
  then show ?thesis
    unfolding setting_def using Cut_found [of "CHR ''=''" "QueryEscape (fst kv)" "QueryEscape (snd kv)"]
    by simp
qed

lemma parseQuery_setting:
  assumes "Cut s CHR ''&'' = (setting kv, rest, found)"
  shows "parseQuery m err s = parseQuery (Values_Add (fst kv) (snd kv) m) err rest"
proof -
  have "s \<noteq> []"
    using assms setting_nonempty [of kv] by (auto simp: Cut_def)
  moreover have "CHR '';'' \<notin> set (setting kv)"
    using setting_chars by blast
  ultimately show ?thesis
    using assms
    by (simp add: parseQuery_nonempty setting_nonempty Cut_setting QueryUnescape_QueryEscape
          del: parseQuery.simps)
qed

lemma parseQuery_join:
  "parseQuery m err (join_amp (map setting L)) = (foldl (\<lambda>m kv. Values_Add (fst kv) (snd kv) m) m L, err)"
proof (induction L arbitrary: m)
  case Nil
  show ?case by simp
next
  case (Cons kv L)
  have amp: "CHR ''&'' \<notin> set (setting kv)"
    using setting_chars by blast
  show ?case
  proof (cases "L = []")
    case True
    have "Cut (setting kv) CHR ''&'' = (setting kv, [], False)"
      using amp by (rule Cut_not_found)
    then show ?thesis
      using True by (simp add: parseQuery_setting [where rest = "[]" and found = False])
  next
    case False
    have "Cut (setting kv @ CHR ''&'' # join_amp (map setting L)) CHR ''&''
            = (setting kv, join_amp (map setting L), True)"
      using amp by (rule Cut_found)
    then show ?thesis
      using False Cons.IH
      by (simp add: join_amp_Cons parseQuery_setting [where rest = "join_amp (map setting L)" and found = True])
  qed
qed

lemma Values_Add_fresh: "k \<notin> fst ` set m \<Longrightarrow> Values_Add k v m = m @ [(k, [v])]"
proof -
  assume fresh: "k \<notin> fst ` set m"
  then have "map_of m k = None"
    by (simp add: map_of_eq_None_iff)
  moreover have "AList.update k x m = m @ [(k, x)]" for x
    using fresh by (induction m) auto
  ultimately show ?thesis
    by (simp add: Values_Add_def Values_lookup_def)
qed

lemma foldl_Values_Add:
  "distinct (map fst m @ map fst L) \<Longrightarrow>
     foldl (\<lambda>m kv. Values_Add (fst kv) (snd kv) m) m L = m @ map single L"
proof (induction L arbitrary: m)
  case Nil
  show ?case by simp
next
  case (Cons kv L)
  then have "fst kv \<notin> fst ` set m"
    by auto
  then have "Values_Add (fst kv) (snd kv) m = m @ [single kv]"
    by (simp add: Values_Add_fresh single_def)
  moreover have "distinct (map fst (m @ [single kv]) @ map fst L)"
    using Cons.prems by (auto simp: single_def)
  ultimately show ?case
    using Cons.IH [of "m @ [single kv]"] by simp
qed

lemma ParseQuery_Encode:
  assumes "distinct (map fst L)"
  shows "ParseQuery (Values_Encode (map single L)) = (map single (sort_key fst L), None)"
proof -
  have "distinct (map fst (sort_key fst L))"
    using assms by (simp add: map_sort_key)
  then show ?thesis
    using assms foldl_Values_Add [of "[]" "sort_key fst L"]
    by (simp add: ParseQuery_def Values_Encode_single parseQuery_join)
qed

lemma range_body_filter:
  assumes "distinct (map fst q)"
  shows "range_body q k = filter (\<lambda>e. \<not> (fst e = k \<and> dead (snd e))) q"
proof (cases "map_of q k")
  case None
  then have "\<forall>e \<in> set q. fst e \<noteq> k"
    by (auto simp: map_of_eq_None_iff)
  then have "filter (\<lambda>e. \<not> (fst e = k \<and> dead (snd e))) q = q"
    by (simp add: filter_id_conv)
  with None show ?thesis
    by (simp add: range_body_def)
next
  case (Some vs)
  have only: "snd e = vs" if "e \<in> set q" "fst e = k" for e
  proof -
    have "map_of q (fst e) = Some (snd e)"
      using that(1) assms by (intro map_of_is_SomeI) simp_all
    with Some that(2) show ?thesis by simp
  qed
  show ?thesis
  proof (cases "dead vs")
    case True
    have "filter (\<lambda>e. \<not> (fst e = k \<and> dead (snd e))) q = filter (\<lambda>e. k \<noteq> fst e) q"
      using only True by (intro filter_cong) auto
    then show ?thesis
      using Some True
      by (simp add: range_body_def Values_Del_def AList.delete_eq dead_def case_prod_unfold)
  next
    case False
    have "filter (\<lambda>e. \<not> (fst e = k \<and> dead (snd e))) q = q"
      using only False by (auto simp: filter_id_conv)
    then show ?thesis
      using Some False by (auto simp: range_body_def dead_def)
  qed
qed

lemma range_query_filter:
  "distinct (map fst q) \<Longrightarrow>
     range_query ks q = filter (\<lambda>e. \<not> (fst e \<in> set ks \<and> dead (snd e))) q"
  unfolding range_query_def
proof (induction ks arbitrary: q)
  case Nil
  show ?case by simp
next
  case (Cons k ks)
  have "distinct (map fst (filter (\<lambda>e. \<not> (fst e = k \<and> dead (snd e))) q))"
    using Cons.prems by (rule distinct_map_filter)
  then show ?case
    using Cons.prems Cons.IH [of "filter (\<lambda>e. \<not> (fst e = k \<and> dead (snd e))) q"]
    by (auto simp: range_body_filter intro: filter_cong)
qed

lemma range_query_single:
  assumes "distinct (map fst L)" and "fst ` set L \<subseteq> set ks"
  shows "range_query ks (map single L) = map single (kept L)"
proof -
  have "distinct (map fst (map single L))"
    using assms(1) by (simp add: single_def comp_def)
  then have "range_query ks (map single L)
      = filter (\<lambda>e. \<not> (fst e \<in> set ks \<and> dead (snd e))) (map single L)"
    by (rule range_query_filter)
  also have "\<dots> = map single (kept L)"
  proof -
    have "filter (\<lambda>kv. \<not> (fst kv \<in> set ks \<and> TrimSpace (snd kv) = [])) L = kept L"
      unfolding kept_def blank_def using assms(2) by (intro filter_cong) auto
    then show ?thesis
      by (simp add: filter_map comp_def single_def dead_def)
  qed
  finally show ?thesis .
qed

lemma resolved_keys:
  "map fst (resolved env NumCPU) =
     [''user'', ''password'', ''port'', ''connect_timeout'', ''application_name'',
      ''pool_max_conns'', ''pool_min_conns'', ''sslmode'', ''sslrootcert'']"
  by (simp add: resolved_def)

lemma resolved_distinct: "distinct (map fst (resolved env NumCPU))"
  unfolding resolved_keys by simp

lemma resolved_sorted:
  "sort_key fst (resolved env NumCPU) =
     [(''application_name'', Getenv env ''PGAPPNAME''),
      (''connect_timeout'',
         if Getenv env ''PGCONNECT_TIMEOUT'' = '''' then ''10'' else Getenv env ''PGCONNECT_TIMEOUT''),
      (''password'', Getenv env ''PGPASSWORD''),
      (''pool_max_conns'',
         if Getenv env ''PGPOOLMAXCONNECTIONS'' = '''' then Itoa (if 4 < NumCPU then NumCPU else 4)
         else Getenv env ''PGPOOLMAXCONNECTIONS''),
      (''pool_min_conns'',
         if Getenv env ''PGPOOLMINCONNECTIONS'' = '''' then Itoa 1
         else Getenv env ''PGPOOLMINCONNECTIONS''),
      (''port'', if Getenv env ''PGPORT'' = '''' then ''5432'' else Getenv env ''PGPORT''),
      (''sslmode'', Getenv env ''PGSSLMODE''),
      (''sslrootcert'', Getenv env ''PGSSLROOTCERT''),
      (''user'', Getenv env ''PGUSER'')]"
  by (simp add: resolved_def)

lemma build2: "Values_Add ''password'' b (Values_Add ''user'' a []) = [(''user'',[a]), (''password'',[b])]"
  by (simp add: Values_Add_def Values_lookup_def)

lemma build9:
  "Values_Add ''sslrootcert'' v9 (Values_Add ''sslmode'' v8 (Values_Add ''pool_min_conns'' v7
     (Values_Add ''pool_max_conns'' v6 (Values_Add ''application_name'' v5
       (Values_Add ''connect_timeout'' v4 (Values_Add ''port'' v3 (Values_Add ''password'' v2
         (Values_Add ''user'' v1 []))))))))
   = map single [(''user'', v1), (''password'', v2), (''port'', v3), (''connect_timeout'', v4),
       (''application_name'', v5), (''pool_max_conns'', v6), (''pool_min_conns'', v7),
       (''sslmode'', v8), (''sslrootcert'', v9)]"
  by (simp add: Values_Add_fresh single_def)

lemma URL_Query_empty: "URL_Query (u\<lparr>RawQuery := ''''\<rparr>) = []" "URL_Query \<lparr>Scheme = a, Host = b, RawQuery = ''''\<rparr> = []"
  by (simp_all add: URL_Query_def ParseQuery_def)

lemma DSN_unfold:
  "DSN env NumCPU order =
     URL_String \<lparr>Scheme = ''postgresql'', Host = host_of env,
       RawQuery = Values_Encode (range_query order (map single (resolved env NumCPU)))\<rparr>"
proof -
  have uri: "(if Host \<lparr>Scheme = ''postgresql'', Host = Getenv env ''PGHOST'', RawQuery = ''''\<rparr> = ''''
        then \<lparr>Scheme = ''postgresql'', Host = Getenv env ''PGHOST'', RawQuery = ''''\<rparr>\<lparr>Host := ''localhost''\<rparr>
        else \<lparr>Scheme = ''postgresql'', Host = Getenv env ''PGHOST'', RawQuery = ''''\<rparr>)
      = \<lparr>Scheme = ''postgresql'', Host = host_of env, RawQuery = ''''\<rparr>"
    by (simp add: host_of_def)
  show ?thesis
    unfolding DSN_def Let_def uri URL_Query_empty build9 resolved_def
    by simp
qed

lemma kept_sort: "kept (sort_key fst L) = sort_key fst (kept L)"
  by (simp add: kept_def filter_sort)

lemma Encode_range_query:
  assumes "distinct (map fst L)" and "fst ` set L \<subseteq> set order"
  shows "Values_Encode (range_query order (map single L)) = raw_query L"
proof -
  have "distinct (map fst (kept L))"
    unfolding kept_def using assms(1) by (rule distinct_map_filter)
  then show ?thesis
    using assms by (simp add: range_query_single raw_query_def kept_sort Values_Encode_single)
qed

lemma assemble_string:
  assumes "distinct (map fst L)" and "fst ` set L \<subseteq> set order" and "host \<noteq> []"
  shows "assemble host L order =
           ''postgresql://'' @ escape host encodeHost
             @ (if raw_query L = [] then [] else ''?'' @ raw_query L)"
  using assms by (simp add: assemble_def URL_String_def Encode_range_query)

lemma raw_query_chars: "c \<in> set (raw_query L) \<Longrightarrow> c \<noteq> CHR ''#''"
proof -
  have "c \<in> set (join_amp S) \<Longrightarrow> \<forall>s \<in> set S. CHR ''#'' \<notin> set s \<Longrightarrow> c \<noteq> CHR ''#''" for S
    by (induction S rule: join_amp.induct) auto
  moreover have "\<forall>s \<in> set (map setting (kept (sort_key fst L))). CHR ''#'' \<notin> set s"
    using setting_chars by auto
  ultimately show "c \<in> set (raw_query L) \<Longrightarrow> c \<noteq> CHR ''#''"
    unfolding raw_query_def by blast
qed

lemma RawQuery_of_assemble:
  assumes "distinct (map fst L)" and "fst ` set L \<subseteq> set order" and "host \<noteq> []"
  shows "RawQuery_of (assemble host L order) = raw_query L"
proof -
  let ?pre = "''postgresql://'' @ escape host encodeHost"
  let ?out = "assemble host L order"
  have pre: "CHR ''#'' \<notin> set ?pre" "CHR ''?'' \<notin> set ?pre"
    using escape_host_safe [of _ host] by auto
  have out: "?out = ?pre @ (if raw_query L = [] then [] else CHR ''?'' # raw_query L)"
    using assemble_string [OF assms] by simp
  have "CHR ''#'' \<notin> set ?out"
    unfolding out using pre(1) raw_query_chars [of "CHR ''#''" L] by auto
  then have frag: "Cut ?out CHR ''#'' = (?out, [], False)"
    by (rule Cut_not_found)
  have "Cut ?out CHR ''?'' = (?pre, raw_query L, raw_query L \<noteq> [])"
  proof (cases "raw_query L = []")
    case True
    then show ?thesis
      unfolding out using Cut_not_found [OF pre(2)] by simp
  next
    case False
    then show ?thesis
      unfolding out using Cut_found [OF pre(2), of "raw_query L"] by simp
  qed
  with frag show ?thesis
    by (simp add: RawQuery_of_def)
qed

lemma Query_of_assemble:
  assumes "distinct (map fst L)" and "fst ` set L \<subseteq> set order" and "host \<noteq> []"
  shows "ParseQuery (RawQuery_of (assemble host L order)) = (map single (kept (sort_key fst L)), None)"
proof -
  have "distinct (map fst (kept L))"
    unfolding kept_def using assms(1) by (rule distinct_map_filter)
  then have "ParseQuery (Values_Encode (map single (kept L))) = (map single (sort_key fst (kept L)), None)"
    by (rule ParseQuery_Encode)
  moreover have "Values_Encode (map single (kept L)) = raw_query L"
    using assms Encode_range_query [OF assms(1,2)] by (simp add: range_query_single)
  ultimately show ?thesis
    using RawQuery_of_assemble [OF assms] by (simp add: kept_sort)
qed

lemma map_of_kept:
  assumes "distinct (map fst L)"
  shows "map_of (map single (kept (sort_key fst L))) k =
           (case map_of L k of None \<Rightarrow> None
            | Some v \<Rightarrow> if blank v then None else Some [v])"
proof -
  have d: "distinct (map fst (map single (kept (sort_key fst L))))"
  proof -
    have "distinct (map fst (sort_key fst L))"
      using assms by (simp add: map_sort_key)
    then have "distinct (map fst (kept (sort_key fst L)))"
      unfolding kept_def by (rule distinct_map_filter)
    then show ?thesis by (simp add: single_def comp_def)
  qed
  show ?thesis
  proof (cases "map_of L k")
    case None
    then have "k \<notin> fst ` set L"
      by (simp add: map_of_eq_None_iff)
    then have "k \<notin> fst ` set (map single (kept (sort_key fst L)))"
      by (force simp: kept_def single_def)
    then have "map_of (map single (kept (sort_key fst L))) k = None"
      by (metis map_of_eq_None_iff)
    then show ?thesis
      unfolding None by simp
  next
    case (Some v)
    then have in_L: "(k, v) \<in> set L"
      by (rule map_of_SomeD)
    show ?thesis
    proof (cases "blank v")
      case True
      have "k \<notin> fst ` set (map single (kept (sort_key fst L)))"
      proof
        assume "k \<in> fst ` set (map single (kept (sort_key fst L)))"
        then obtain v' where "(k, v') \<in> set L" "\<not> blank v'"
          by (auto simp: kept_def single_def)
        then show False
          using in_L assms True by (auto dest: eq_key_imp_eq_value)
      qed
      then have "map_of (map single (kept (sort_key fst L))) k = None"
        by (metis map_of_eq_None_iff)
      then show ?thesis
        unfolding Some using True by simp
    next
      case False
      then have "(k, [v]) \<in> set (map single (kept (sort_key fst L)))"
        using in_L by (auto simp: kept_def single_def image_iff)
      then have "map_of (map single (kept (sort_key fst L))) k = Some [v]"
        using d by (metis map_of_is_SomeI)
      then show ?thesis
        unfolding Some using False by simp
    qed
  qed
qed

subsection \<open>What DSN returns\<close>

lemma host_of_nonempty: "host_of env \<noteq> []"
  by (simp add: host_of_def)

lemma build10:
  "Values_Add ''sslrootcert'' v10 (Values_Add ''sslcertmode'' v9 (Values_Add ''sslmode'' v8
     (Values_Add ''pool_min_conns'' v7 (Values_Add ''pool_max_conns'' v6
       (Values_Add ''application_name'' v5 (Values_Add ''connect_timeout'' v4
         (Values_Add ''port'' v3 (Values_Add ''password'' v2 (Values_Add ''user'' v1 [])))))))))
   = map single [(''user'', v1), (''password'', v2), (''port'', v3), (''connect_timeout'', v4),
       (''application_name'', v5), (''pool_max_conns'', v6), (''pool_min_conns'', v7),
       (''sslmode'', v8), (''sslcertmode'', v9), (''sslrootcert'', v10)]"
  by (simp add: Values_Add_fresh single_def)

lemma DSN_assemble: "DSN env NumCPU order = assemble (host_of env) (resolved env NumCPU) order"
  by (simp add: DSN_unfold assemble_def)

lemma DSN_part_002_assemble:
  "DSN_part_002 env NumCPU order = assemble (host_of env) (resolved_part_002 env NumCPU) order"
proof -
  have uri: "(if Host \<lparr>Scheme = ''postgresql'', Host = Getenv env ''PGHOST'', RawQuery = ''''\<rparr> = ''''
        then \<lparr>Scheme = ''postgresql'', Host = Getenv env ''PGHOST'', RawQuery = ''''\<rparr>\<lparr>Host := ''localhost''\<rparr>
        else \<lparr>Scheme = ''postgresql'', Host = Getenv env ''PGHOST'', RawQuery = ''''\<rparr>)
      = \<lparr>Scheme = ''postgresql'', Host = host_of env, RawQuery = ''''\<rparr>"
    by (simp add: host_of_def)
  show ?thesis
    unfolding DSN_part_002_def Let_def uri URL_Query_empty build10 resolved_part_002_def assemble_def
    by simp
qed

lemma resolved_part_002_keys: "map fst (resolved_part_002 env NumCPU) = DSN_part_002_keys"
  by (simp add: resolved_part_002_def DSN_part_002_keys_def)

lemma resolved_keys': "map fst (resolved env NumCPU) = DSN_keys"
  by (simp add: resolved_def DSN_keys_def)

lemma resolved_part_002_distinct: "distinct (map fst (resolved_part_002 env NumCPU))"
  unfolding resolved_part_002_keys by (simp add: DSN_part_002_keys_def)

lemma range_order_covers:
  assumes "range_order (map fst L) order"
  shows "fst ` set L \<subseteq> set order"
  using assms by (auto simp: range_order_def)

lemma DSN_parsed:
  assumes "range_order DSN_keys order"
  shows "ParseQuery (RawQuery_of (DSN env NumCPU order))
           = (map single (kept (sort_key fst (resolved env NumCPU))), None)"
  unfolding DSN_assemble
  using assms resolved_distinct range_order_covers [of "resolved env NumCPU" order] host_of_nonempty
  by (intro Query_of_assemble) (simp_all add: resolved_keys')

lemma DSN_part_002_parsed:
  assumes "range_order DSN_part_002_keys order"
  shows "ParseQuery (RawQuery_of (DSN_part_002 env NumCPU order))
           = (map single (kept (sort_key fst (resolved_part_002 env NumCPU))), None)"
  unfolding DSN_part_002_assemble
  using assms resolved_part_002_distinct range_order_covers [of "resolved_part_002 env NumCPU" order]
    host_of_nonempty
  by (intro Query_of_assemble) (simp_all add: resolved_part_002_keys)

lemma DSN_lookup:
  assumes "range_order DSN_keys order"
  shows "map_of (Query_of (DSN env NumCPU order)) k =
           (case map_of (resolved env NumCPU) k of None \<Rightarrow> None
            | Some v \<Rightarrow> if blank v then None else Some [v])"
  using DSN_parsed [OF assms] resolved_distinct by (simp add: Query_of_def map_of_kept)

lemma DSN_part_002_lookup:
  assumes "range_order DSN_part_002_keys order"
  shows "map_of (Query_of (DSN_part_002 env NumCPU order)) k =
           (case map_of (resolved_part_002 env NumCPU) k of None \<Rightarrow> None
            | Some v \<Rightarrow> if blank v then None else Some [v])"
  using DSN_part_002_parsed [OF assms] resolved_part_002_distinct
  by (simp add: Query_of_def map_of_kept)

lemma DSN_string:
  assumes "range_order DSN_keys order"
  shows "DSN env NumCPU order =
           ''postgresql://'' @ escape (host_of env) encodeHost
             @ (if raw_query (resolved env NumCPU) = [] then []
                else ''?'' @ raw_query (resolved env NumCPU))"
  unfolding DSN_assemble
  using assms resolved_distinct range_order_covers [of "resolved env NumCPU" order] host_of_nonempty
  by (intro assemble_string) (simp_all add: resolved_keys')

lemma DSN_part_002_string:
  assumes "range_order DSN_part_002_keys order"
  shows "DSN_part_002 env NumCPU order =
           ''postgresql://'' @ escape (host_of env) encodeHost
             @ (if raw_query (resolved_part_002 env NumCPU) = [] then []
                else ''?'' @ raw_query (resolved_part_002 env NumCPU))"
  unfolding DSN_part_002_assemble
  using assms resolved_part_002_distinct range_order_covers [of "resolved_part_002 env NumCPU" order]
    host_of_nonempty
  by (intro assemble_string) (simp_all add: resolved_part_002_keys)

subsection \<open>Values that are not blank, and splitting a query\<close>

lemma TrimSpace_stop_keeps:
  assumes "s \<noteq> []" and "(of_char (last s) :: nat) < RuneSelf" and "\<not> asciiSpace (last s)"
  shows "TrimSpace_stop s = s"
  using assms by (subst TrimSpace_stop.simps) simp

lemma TrimSpace_keeps:
  assumes "s \<noteq> []"
    and "(of_char (hd s) :: nat) < RuneSelf" and "\<not> asciiSpace (hd s)"
    and "(of_char (last s) :: nat) < RuneSelf" and "\<not> asciiSpace (last s)"
  shows "TrimSpace s = s"
  using assms TrimSpace_stop_keeps [of s] by (cases s) auto

lemma not_blank_graphic:
  assumes "s \<noteq> []" and "graphic (hd s)" and "graphic (last s)"
  shows "\<not> blank s"
  using assms TrimSpace_keeps [of s] by (simp add: blank_def graphic_def)

lemma digit_char_graphic: "d < 10 \<Longrightarrow> graphic (digit_char d)"
proof -
  have "list_all (\<lambda>d. graphic (digit_char d)) [0..<10]"
    by code_simp
  moreover assume "d < 10"
  ultimately show ?thesis
    by (simp add: list_all_iff)
qed

lemma formatUint_graphic: "formatUint n \<noteq> [] \<and> graphic (hd (formatUint n)) \<and> graphic (last (formatUint n))"
proof (induction n rule: formatUint.induct)
  case (1 n)
  show ?case
  proof (cases "n < 10")
    case True
    then show ?thesis
      by (subst (1 2 3) formatUint.simps) (simp add: digit_char_graphic)
  next
    case False
    then show ?thesis
      using 1 by (subst (1 2 3) formatUint.simps) (simp add: digit_char_graphic)
  qed
qed

lemma Itoa_not_blank: "\<not> blank (Itoa i)"
proof (rule not_blank_graphic)
  show "Itoa i \<noteq> []"
    using formatUint_graphic by (simp add: Itoa_def)
  show "graphic (hd (Itoa i))"
    using formatUint_graphic by (simp add: Itoa_def graphic_def asciiSpace_def RuneSelf_def)
  show "graphic (last (Itoa i))"
    using formatUint_graphic by (simp add: Itoa_def)
qed

lemma literal_not_blank: "\<not> blank ''5432''" "\<not> blank ''10''"
  by (rule not_blank_graphic; simp add: graphic_def asciiSpace_def RuneSelf_def)+

lemma blank_empty: "blank []"
  by (simp add: blank_def)

lemma blank_space: "blank '' ''"
  by (simp add: blank_def asciiSpace_def RuneSelf_def)

lemma splitting_no_sep: "sep \<notin> set s \<Longrightarrow> splitting sep s = [s]"
  by (induction s) auto

lemma splitting_append: "sep \<notin> set a \<Longrightarrow> splitting sep (a @ sep # b) = a # splitting sep b"
  by (induction a) (auto split: list.splits)

lemma splitting_join_amp:
  assumes "S \<noteq> []" and "\<forall>s \<in> set S. CHR ''&'' \<notin> set s"
  shows "splitting CHR ''&'' (join_amp S) = S"
  using assms
proof (induction S rule: join_amp.induct)
  case 1
  then show ?case by simp
next
  case (2 x)
  then show ?case by (simp add: splitting_no_sep)
next
  case (3 x y ys)
  then show ?case
    using splitting_append [of "CHR ''&''" x "join_amp (y # ys)"] by simp
qed

section \<open>The properties\<close>

lemma lookup_of_map_of: "Values_lookup v k = (case map_of v k of None \<Rightarrow> [] | Some vs \<Rightarrow> vs)"
  by (simp add: Values_lookup_def)

lemma resolved_pool_max_conns:
  "map_of (resolved env NumCPU) ''pool_max_conns'' =
     Some (if Getenv env ''PGPOOLMAXCONNECTIONS'' = '''' then Itoa (if 4 < NumCPU then NumCPU else 4)
           else Getenv env ''PGPOOLMAXCONNECTIONS'')"
  "map_of (resolved_part_002 env NumCPU) ''pool_max_conns'' =
     Some (if Getenv env ''PGPOOLMAXCONNECTIONS'' = '''' then Itoa (if 4 < NumCPU then NumCPU else 4)
           else Getenv env ''PGPOOLMAXCONNECTIONS'')"
  by (simp_all add: resolved_def resolved_part_002_def)

text \<open>
  C6. When \<open>PGPOOLMAXCONNECTIONS\<close> is not set, the parameter \<open>pool_max_conns\<close> of the
  connection string that \<open>DSN\<close> returns has one value: the larger of 4 and the number
  of processing units, as \<open>strconv.Itoa\<close> renders it. This holds for both copies of
  \<open>DSN\<close> and for every order in which the runtime walks the query.
\<close>

theorem pool_max_conns_default:
  assumes "env ''PGPOOLMAXCONNECTIONS'' = None"
    and "range_order DSN_keys order" and "range_order DSN_part_002_keys order'"
  shows "Values_lookup (Query_of (DSN env NumCPU order)) ''pool_max_conns'' = [Itoa (max 4 NumCPU)]
       \<and> Values_lookup (Query_of (DSN_part_002 env NumCPU order')) ''pool_max_conns''
           = [Itoa (max 4 NumCPU)]"
proof -
  have absent: "Getenv env ''PGPOOLMAXCONNECTIONS'' = ''''"
    using assms(1) by (simp add: Getenv_def)
  have larger: "(if 4 < NumCPU then NumCPU else 4) = max 4 NumCPU"
    by simp
  show ?thesis
    unfolding lookup_of_map_of DSN_lookup [OF assms(2)] DSN_part_002_lookup [OF assms(3)]
      resolved_pool_max_conns absent larger
    by (simp add: Itoa_not_blank)
qed

text \<open>With no variable set and eight processing units the value is \<open>8\<close>.\<close>

theorem pool_max_conns_default_witness:
  "(Map.empty :: environ) ''PGPOOLMAXCONNECTIONS'' = None
   \<and> range_order DSN_keys DSN_keys \<and> range_order DSN_part_002_keys DSN_part_002_keys
   \<and> Values_lookup (Query_of (DSN Map.empty 8 DSN_keys)) ''pool_max_conns'' = [''8'']
   \<and> Values_lookup (Query_of (DSN_part_002 Map.empty 8 DSN_part_002_keys)) ''pool_max_conns'' = [''8'']"
proof -
  have o1: "range_order DSN_keys DSN_keys"
    by (simp add: range_order_def DSN_keys_def)
  have o2: "range_order DSN_part_002_keys DSN_part_002_keys"
    by (simp add: range_order_def DSN_part_002_keys_def)
  have "Itoa (max 4 8) = ''8''"
    by (simp add: Itoa_def formatUint.simps digit_char_def)
  then show ?thesis
    using o1 o2 pool_max_conns_default [of Map.empty DSN_keys DSN_part_002_keys 8] by simp
qed

lemma resolved_port:
  "map_of (resolved env NumCPU) ''port'' =
     Some (if Getenv env ''PGPORT'' = '''' then ''5432'' else Getenv env ''PGPORT'')"
  "map_of (resolved_part_002 env NumCPU) ''port'' =
     Some (if Getenv env ''PGPORT'' = '''' then ''5432'' else Getenv env ''PGPORT'')"
  by (simp_all add: resolved_def resolved_part_002_def)

lemma range_order_refl: "range_order DSN_keys DSN_keys" "range_order DSN_part_002_keys DSN_part_002_keys"
  by (simp_all add: range_order_def DSN_keys_def DSN_part_002_keys_def)

text \<open>
  C5 says that the parameter \<open>port\<close> is \<open>5432\<close> when \<open>PGPORT\<close> is unset or empty and
  the value of \<open>PGPORT\<close> otherwise, white space included. The second half fails for a
  value that is not empty and blank: the loop of \<open>DSN\<close> deletes the parameter. With
  \<open>PGPORT\<close> set to one space the returned string has no \<open>port\<close> at all.
\<close>

theorem port_whitespace_counterexample:
  "Getenv [''PGPORT'' \<mapsto> '' ''] ''PGPORT'' = '' ''
   \<and> \<not> Values_Has (Query_of (DSN [''PGPORT'' \<mapsto> '' ''] 8 DSN_keys)) ''port''
   \<and> Values_lookup (Query_of (DSN [''PGPORT'' \<mapsto> '' ''] 8 DSN_keys)) ''port'' \<noteq> ['' '']
   \<and> DSN [''PGPORT'' \<mapsto> '' ''] 8 DSN_keys
        = ''postgresql://localhost?connect_timeout=10&pool_max_conns=8&pool_min_conns=1''"
proof -
  have "DSN [''PGPORT'' \<mapsto> '' ''] 8 DSN_keys
        = ''postgresql://localhost?connect_timeout=10&pool_max_conns=8&pool_min_conns=1''"
    by code_simp
  then show ?thesis
    unfolding Values_Has_def lookup_of_map_of DSN_lookup [OF range_order_refl(1)] resolved_port
    by (simp add: Getenv_def blank_space)
qed

text \<open>
  C5 as amended. The parameter \<open>port\<close> of the returned string is \<open>5432\<close> when \<open>PGPORT\<close> is
  unset or empty, it is missing when \<open>PGPORT\<close> is not empty and blank, and it is the value
  of \<open>PGPORT\<close>, unchanged, in every other case.
\<close>

theorem port_parameter:
  assumes "range_order DSN_keys order" and "range_order DSN_part_002_keys order'"
  shows "Values_lookup (Query_of (DSN env NumCPU order)) ''port'' =
           (if Getenv env ''PGPORT'' = '''' then [''5432'']
            else if blank (Getenv env ''PGPORT'') then []
            else [Getenv env ''PGPORT''])
       \<and> Values_lookup (Query_of (DSN_part_002 env NumCPU order')) ''port'' =
           (if Getenv env ''PGPORT'' = '''' then [''5432'']
            else if blank (Getenv env ''PGPORT'') then []
            else [Getenv env ''PGPORT''])"
  unfolding lookup_of_map_of DSN_lookup [OF assms(1)] DSN_part_002_lookup [OF assms(2)] resolved_port
  by (simp add: literal_not_blank)

text \<open>With \<open>PGPORT\<close> set to \<open>6543\<close> the parameter is \<open>6543\<close>.\<close>

theorem port_parameter_witness:
  "range_order DSN_keys DSN_keys \<and> range_order DSN_part_002_keys DSN_part_002_keys
   \<and> Values_lookup (Query_of (DSN [''PGPORT'' \<mapsto> ''6543''] 8 DSN_keys)) ''port'' = [''6543'']
   \<and> Values_lookup (Query_of (DSN_part_002 [''PGPORT'' \<mapsto> ''6543''] 8 DSN_part_002_keys)) ''port''
         = [''6543'']"
proof -
  have "\<not> blank ''6543''"
    by (rule not_blank_graphic) (simp_all add: graphic_def asciiSpace_def RuneSelf_def)
  then show ?thesis
    using port_parameter [OF range_order_refl, of "[''PGPORT'' \<mapsto> ''6543'']" 8]
    by (simp add: range_order_refl Getenv_def)
qed

lemma has_kept:
  assumes "distinct (map fst L)"
  shows "Values_Has (map single (kept (sort_key fst L))) k \<longleftrightarrow> (\<exists>v. (k, v) \<in> set L \<and> \<not> blank v)"
proof (cases "map_of L k")
  case None
  then have "k \<notin> fst ` set L"
    by (simp add: map_of_eq_None_iff)
  then have "\<And>v. (k, v) \<notin> set L"
    by force
  moreover have "map_of (map single (kept (sort_key fst L))) k = None"
    unfolding map_of_kept [OF assms] None by simp
  ultimately show ?thesis
    by (simp add: Values_Has_def)
next
  case (Some v)
  then have "(k, v) \<in> set L"
    by (rule map_of_SomeD)
  then have only: "(k, v') \<in> set L \<longleftrightarrow> v' = v" for v'
    using assms eq_key_imp_eq_value by fastforce
  have "map_of (map single (kept (sort_key fst L))) k = (if blank v then None else Some [v])"
    unfolding map_of_kept [OF assms] Some by simp
  then show ?thesis
    by (simp add: Values_Has_def only)
qed

lemma settings_raw_query:
  "splitting CHR ''&'' (raw_query L) =
     (if kept (sort_key fst L) = [] then [[]] else map setting (kept (sort_key fst L)))"
proof (cases "kept (sort_key fst L) = []")
  case True
  then show ?thesis by (simp add: raw_query_def)
next
  case False
  have "\<forall>s \<in> set (map setting (kept (sort_key fst L))). CHR ''&'' \<notin> set s"
    using setting_chars by auto
  with False have "splitting CHR ''&'' (join_amp (map setting (kept (sort_key fst L))))
      = map setting (kept (sort_key fst L))"
    by (intro splitting_join_amp) simp_all
  with False show ?thesis
    unfolding raw_query_def by simp
qed


lemma no_bare_key:
  assumes "CHR ''='' \<notin> set k"
  shows "k @ ''='' \<notin> set (splitting CHR ''&'' (raw_query L))"
proof
  assume mem: "k @ ''='' \<in> set (splitting CHR ''&'' (raw_query L))"
  have "k @ ''='' \<in> set (map setting (kept (sort_key fst L)))"
  proof (cases "kept (sort_key fst L) = []")
    case True
    with mem show ?thesis
      unfolding settings_raw_query by simp
  next
    case False
    with mem show ?thesis
      unfolding settings_raw_query by simp
  qed
  then obtain kv where kv: "kv \<in> set (kept (sort_key fst L))" "setting kv = k @ ''=''"
    by (metis (no_types) imageE list.set_map)
  have "Cut (k @ CHR ''='' # []) CHR ''='' = (k, [], True)"
    using assms by (rule Cut_found)
  then have "Cut (setting kv) CHR ''='' = (k, [], True)"
    unfolding kv(2) by simp
  then have "QueryEscape (snd kv) = []"
    unfolding Cut_setting by simp
  then have "snd kv = []"
    unfolding QueryEscape_empty_iff .
  moreover have "\<not> blank (snd kv)"
    using kv(1) unfolding kept_def by simp
  ultimately show False
    using blank_empty by simp
qed


lemma DSN_RawQuery:
  assumes "range_order DSN_keys order"
  shows "RawQuery_of (DSN env NumCPU order) = raw_query (resolved env NumCPU)"
  unfolding DSN_assemble
  using assms resolved_distinct range_order_covers [of "resolved env NumCPU" order] host_of_nonempty
  by (intro RawQuery_of_assemble) (simp_all add: resolved_keys')

lemma DSN_part_002_RawQuery:
  assumes "range_order DSN_part_002_keys order"
  shows "RawQuery_of (DSN_part_002 env NumCPU order) = raw_query (resolved_part_002 env NumCPU)"
  unfolding DSN_part_002_assemble
  using assms resolved_part_002_distinct range_order_covers [of "resolved_part_002 env NumCPU" order]
    host_of_nonempty
  by (intro RawQuery_of_assemble) (simp_all add: resolved_part_002_keys)

lemma values_kept:
  assumes "distinct (map fst L)"
  shows "[] \<notin> set (Values_lookup (map single (kept (sort_key fst L))) k)"
  unfolding lookup_of_map_of map_of_kept [OF assms]
  by (auto simp: blank_empty split: option.splits)

lemma DSN_keys_plain: "k \<in> set DSN_part_002_keys \<Longrightarrow> CHR ''='' \<notin> set k"
  by (auto simp: DSN_part_002_keys_def)

lemma DSN_keys_subset: "set DSN_keys \<subseteq> set DSN_part_002_keys"
  by (auto simp: DSN_keys_def DSN_part_002_keys_def)

text \<open>
  C3. Take a key that \<open>DSN\<close> adds to the query and whose resolved value is blank (empty,
  or white space only). Then the connection string that \<open>DSN\<close> returns does not have the
  key: reading the string back gives no parameter of that name, and none of the settings
  between the \<open>&\<close> signs of its query is the bare \<open>key=\<close>. Moreover no parameter that
  is read back has an empty value. This holds for both copies of \<open>DSN\<close> and for every
  order in which the runtime walks the query.
\<close>

theorem blank_parameters_omitted:
  assumes "range_order DSN_keys order" and "range_order DSN_part_002_keys order'"
  shows "(\<forall>kv \<in> set (resolved env NumCPU). blank (snd kv) \<longrightarrow>
            \<not> Values_Has (Query_of (DSN env NumCPU order)) (fst kv)
            \<and> fst kv @ ''='' \<notin> set (splitting CHR ''&'' (RawQuery_of (DSN env NumCPU order))))
       \<and> (\<forall>k. '''' \<notin> set (Values_lookup (Query_of (DSN env NumCPU order)) k))
       \<and> (\<forall>kv \<in> set (resolved_part_002 env NumCPU). blank (snd kv) \<longrightarrow>
            \<not> Values_Has (Query_of (DSN_part_002 env NumCPU order')) (fst kv)
            \<and> fst kv @ ''='' \<notin> set (splitting CHR ''&'' (RawQuery_of (DSN_part_002 env NumCPU order'))))
       \<and> (\<forall>k. '''' \<notin> set (Values_lookup (Query_of (DSN_part_002 env NumCPU order')) k))"
proof -
  have q1: "Query_of (DSN env NumCPU order) = map single (kept (sort_key fst (resolved env NumCPU)))"
    using DSN_parsed [OF assms(1)] by (simp add: Query_of_def)
  have q2: "Query_of (DSN_part_002 env NumCPU order')
              = map single (kept (sort_key fst (resolved_part_002 env NumCPU)))"
    using DSN_part_002_parsed [OF assms(2)] by (simp add: Query_of_def)
  have absent: "\<not> Values_Has (map single (kept (sort_key fst L))) (fst kv)"
    if "distinct (map fst L)" "kv \<in> set L" "blank (snd kv)" for L kv
  proof -
    have "v = snd kv" if "(fst kv, v) \<in> set L" for v
      using that \<open>distinct (map fst L)\<close> \<open>kv \<in> set L\<close>
      by (metis eq_key_imp_eq_value prod.collapse)
    then show ?thesis
      using that(3) by (auto simp: has_kept [OF that(1)])
  qed
  have plain1: "CHR ''='' \<notin> set (fst kv)" if "kv \<in> set (resolved env NumCPU)" for kv
  proof -
    have "fst kv \<in> set (map fst (resolved env NumCPU))"
      using that by simp
    then show ?thesis
      unfolding resolved_keys' using DSN_keys_subset DSN_keys_plain by blast
  qed
  have plain2: "CHR ''='' \<notin> set (fst kv)" if "kv \<in> set (resolved_part_002 env NumCPU)" for kv
  proof -
    have "fst kv \<in> set (map fst (resolved_part_002 env NumCPU))"
      using that by simp
    then show ?thesis
      unfolding resolved_part_002_keys using DSN_keys_plain by blast
  qed
  show ?thesis
    unfolding q1 q2 DSN_RawQuery [OF assms(1)] DSN_part_002_RawQuery [OF assms(2)]
    using absent [OF resolved_distinct] absent [OF resolved_part_002_distinct]
      values_kept [OF resolved_distinct] values_kept [OF resolved_part_002_distinct]
      no_bare_key [OF plain1] no_bare_key [OF plain2]
    by blast
qed

text \<open>With \<open>PGUSER\<close> set to one space the resolved value of \<open>user\<close> is blank, and the
  returned string has no \<open>user\<close>.\<close>

theorem blank_parameters_omitted_witness:
  "range_order DSN_keys DSN_keys \<and> range_order DSN_part_002_keys DSN_part_002_keys
   \<and> (''user'', '' '') \<in> set (resolved [''PGUSER'' \<mapsto> '' ''] 8)
   \<and> (''user'', '' '') \<in> set (resolved_part_002 [''PGUSER'' \<mapsto> '' ''] 8)
   \<and> blank '' ''
   \<and> \<not> Values_Has (Query_of (DSN [''PGUSER'' \<mapsto> '' ''] 8 DSN_keys)) ''user''
   \<and> ''user='' \<notin> set (splitting CHR ''&'' (RawQuery_of (DSN [''PGUSER'' \<mapsto> '' ''] 8 DSN_keys)))
   \<and> \<not> Values_Has (Query_of (DSN_part_002 [''PGUSER'' \<mapsto> '' ''] 8 DSN_part_002_keys)) ''user''
   \<and> ''user='' \<notin> set (splitting CHR ''&''
          (RawQuery_of (DSN_part_002 [''PGUSER'' \<mapsto> '' ''] 8 DSN_part_002_keys)))"
proof -
  have m1: "(''user'', '' '') \<in> set (resolved [''PGUSER'' \<mapsto> '' ''] 8)"
    by (simp add: resolved_def Getenv_def)
  have m2: "(''user'', '' '') \<in> set (resolved_part_002 [''PGUSER'' \<mapsto> '' ''] 8)"
    by (simp add: resolved_part_002_def Getenv_def)
  show ?thesis
    using blank_parameters_omitted [OF range_order_refl, of "[''PGUSER'' \<mapsto> '' '']" 8]
      m1 m2 blank_space range_order_refl
    by fastforce
qed

lemma DSN_has:
  assumes "range_order DSN_keys order"
  shows "Values_Has (Query_of (DSN env NumCPU order)) k
           \<longleftrightarrow> (\<exists>v. (k, v) \<in> set (resolved env NumCPU) \<and> \<not> blank v)"
  using DSN_parsed [OF assms] has_kept [OF resolved_distinct] by (simp add: Query_of_def)

lemma DSN_part_002_has:
  assumes "range_order DSN_part_002_keys order"
  shows "Values_Has (Query_of (DSN_part_002 env NumCPU order)) k
           \<longleftrightarrow> (\<exists>v. (k, v) \<in> set (resolved_part_002 env NumCPU) \<and> \<not> blank v)"
  using DSN_part_002_parsed [OF assms] has_kept [OF resolved_part_002_distinct]
  by (simp add: Query_of_def)

lemma resolved_part_002_split:
  "resolved_part_002 env NumCPU =
     take 8 (resolved env NumCPU) @ (''sslcertmode'', Getenv env ''PGSSLCERTMODE'')
       # drop 8 (resolved env NumCPU)"
  by (simp add: resolved_def resolved_part_002_def)

lemma resolved_part_002_set:
  "set (resolved_part_002 env NumCPU) =
     insert (''sslcertmode'', Getenv env ''PGSSLCERTMODE'') (set (resolved env NumCPU))"
proof -
  have "set (take 8 (resolved env NumCPU)) \<union> set (drop 8 (resolved env NumCPU))
          = set (resolved env NumCPU)"
    unfolding set_append [symmetric] append_take_drop_id ..
  then show ?thesis
    unfolding resolved_part_002_split by auto
qed

lemma resolved_of_part_002:
  "kv \<in> set (resolved env NumCPU)
     \<longleftrightarrow> kv \<in> set (resolved_part_002 env NumCPU) \<and> fst kv \<noteq> ''sslcertmode''"
proof -
  have "''sslcertmode'' \<notin> set DSN_keys"
    by (simp add: DSN_keys_def)
  then have "''sslcertmode'' \<notin> set (map fst (resolved env NumCPU))"
    by (simp add: resolved_keys')
  then have "fst kv \<noteq> ''sslcertmode''" if "kv \<in> set (resolved env NumCPU)"
    using that by force
  then show ?thesis
    unfolding resolved_part_002_set by auto
qed

lemma settings_of_kept:
  assumes "distinct (map fst L)"
  shows "distinct (map fst (kept (sort_key fst L)))"
    and "set (kept (sort_key fst L)) = set (kept L)"
    and "raw_query L = [] \<longleftrightarrow> kept (sort_key fst L) = []"
proof -
  have "distinct (map fst (sort_key fst L))"
    using assms by (simp add: map_sort_key)
  then show "distinct (map fst (kept (sort_key fst L)))"
    unfolding kept_def by (rule distinct_map_filter)
  show "set (kept (sort_key fst L)) = set (kept L)"
    by (simp add: kept_def)
  have "join_amp (map setting K) = [] \<longleftrightarrow> K = []" for K
    by (cases K) (simp_all add: join_amp_Cons setting_nonempty)
  then show "raw_query L = [] \<longleftrightarrow> kept (sort_key fst L) = []"
    by (simp add: raw_query_def)
qed

lemma kept_iff: "kv \<in> set (kept L) \<longleftrightarrow> kv \<in> set L \<and> \<not> blank (snd kv)"
  by (simp add: kept_def)

lemma DSN_has_of_part_002:
  assumes "range_order DSN_keys order" and "range_order DSN_part_002_keys order'"
  shows "Values_Has (Query_of (DSN env NumCPU order)) k
      \<longleftrightarrow> (\<exists>v. (k, v) \<in> set (resolved_part_002 env NumCPU) \<and> k \<noteq> ''sslcertmode'' \<and> \<not> blank v)"
  unfolding DSN_has [OF assms(1)] resolved_of_part_002 by simp

lemma DSN_part_002_settings:
  assumes "range_order DSN_part_002_keys order'"
  shows "\<exists>S. DSN_part_002 env NumCPU order' =
              ''postgresql://'' @ escape (host_of env) encodeHost
                @ (if S = [] then '''' else ''?'' @ join_amp (map setting S))
            \<and> distinct (map fst S) \<and> set S = set (kept (resolved_part_002 env NumCPU))"
proof -
  let ?S' = "kept (sort_key fst (resolved_part_002 env NumCPU))"
  note k' = settings_of_kept [OF resolved_part_002_distinct, of env NumCPU]
  have "DSN_part_002 env NumCPU order' = ''postgresql://'' @ escape (host_of env) encodeHost
      @ (if ?S' = [] then '''' else ''?'' @ join_amp (map setting ?S'))"
    unfolding DSN_part_002_string [OF assms] k'(3) by (simp add: raw_query_def)
  then show ?thesis
    using k'(1,2) by (intro exI [of _ ?S']) simp
qed

lemma DSN_settings:
  assumes "range_order DSN_keys order"
  shows "\<exists>S. DSN env NumCPU order =
              ''postgresql://'' @ escape (host_of env) encodeHost
                @ (if S = [] then '''' else ''?'' @ join_amp (map setting S))
            \<and> distinct (map fst S)
            \<and> set S \<subseteq> set (kept (resolved_part_002 env NumCPU))
            \<and> (\<forall>kv \<in> set (kept (resolved_part_002 env NumCPU)).
                  fst kv \<noteq> ''sslcertmode'' \<longrightarrow> kv \<in> set S)"
proof -
  let ?S = "kept (sort_key fst (resolved env NumCPU))"
  note k = settings_of_kept [OF resolved_distinct, of env NumCPU]
  have in_S: "kv \<in> set ?S \<longleftrightarrow> kv \<in> set (kept (resolved_part_002 env NumCPU)) \<and> fst kv \<noteq> ''sslcertmode''"
    for kv
    unfolding k(2) kept_iff resolved_of_part_002 by blast
  have "DSN env NumCPU order = ''postgresql://'' @ escape (host_of env) encodeHost
      @ (if ?S = [] then '''' else ''?'' @ join_amp (map setting ?S))"
    unfolding DSN_string [OF assms] k(3) by (simp add: raw_query_def)
  moreover have "set ?S \<subseteq> set (kept (resolved_part_002 env NumCPU))"
    using in_S by blast
  moreover have "\<forall>kv \<in> set (kept (resolved_part_002 env NumCPU)).
      fst kv \<noteq> ''sslcertmode'' \<longrightarrow> kv \<in> set ?S"
    using in_S by blast
  ultimately show ?thesis
    using k(1) by (intro exI [of _ ?S]) simp
qed

text \<open>
  C4 says that the returned string is \<open>postgresql://<host>?<parameters>\<close> and that its
  keys are those of the ten keys whose resolved value is not empty. A value that is not
  empty and blank is a counterexample: with \<open>PGUSER\<close> set to one space the resolved value
  of \<open>user\<close> is a space, and the string has no \<open>user\<close>. When every parameter is blank
  the string has no question mark either.
\<close>

theorem blank_value_counterexample:
  "(''user'', '' '') \<in> set (resolved_part_002 [''PGUSER'' \<mapsto> '' ''] 8) \<and> '' '' \<noteq> ''''
   \<and> \<not> Values_Has (Query_of (DSN_part_002 [''PGUSER'' \<mapsto> '' ''] 8 DSN_part_002_keys)) ''user''
   \<and> DSN_part_002 [''PGUSER'' \<mapsto> '' ''] 8 DSN_part_002_keys
        = ''postgresql://localhost?connect_timeout=10&pool_max_conns=8&pool_min_conns=1&port=5432''
   \<and> DSN_part_002 [''PGPORT'' \<mapsto> '' '', ''PGCONNECT_TIMEOUT'' \<mapsto> '' '',
          ''PGPOOLMAXCONNECTIONS'' \<mapsto> '' '', ''PGPOOLMINCONNECTIONS'' \<mapsto> '' ''] 8 DSN_part_002_keys
        = ''postgresql://localhost''"
proof -
  have "DSN_part_002 [''PGUSER'' \<mapsto> '' ''] 8 DSN_part_002_keys
        = ''postgresql://localhost?connect_timeout=10&pool_max_conns=8&pool_min_conns=1&port=5432''"
    by code_simp
  moreover have "DSN_part_002 [''PGPORT'' \<mapsto> '' '', ''PGCONNECT_TIMEOUT'' \<mapsto> '' '',
          ''PGPOOLMAXCONNECTIONS'' \<mapsto> '' '', ''PGPOOLMINCONNECTIONS'' \<mapsto> '' ''] 8 DSN_part_002_keys
        = ''postgresql://localhost''"
    by code_simp
  moreover have "(''user'', '' '') \<in> set (resolved_part_002 [''PGUSER'' \<mapsto> '' ''] 8)"
    by (simp add: resolved_part_002_def Getenv_def)
  moreover have "\<not> Values_Has (Query_of (DSN_part_002 [''PGUSER'' \<mapsto> '' ''] 8 DSN_part_002_keys)) ''user''"
    unfolding DSN_part_002_has [OF range_order_refl(2)]
    by (simp add: resolved_part_002_def Getenv_def blank_space)
  ultimately show ?thesis
    by simp
qed

text \<open>
  C4 as amended. The returned string is \<open>postgresql://\<close>, the escaped host and, when at
  least one parameter is kept, a question mark and the kept parameters in the form
  \<open>key=value\<close>, escaped and joined by \<open>&\<close>, each key once. Every key that reading the
  string back gives is one of the ten keys \<open>user\<close>, \<open>password\<close>, \<open>port\<close>,
  \<open>connect_timeout\<close>, \<open>application_name\<close>, \<open>pool_max_conns\<close>, \<open>pool_min_conns\<close>,
  \<open>sslmode\<close>, \<open>sslcertmode\<close>, \<open>sslrootcert\<close>, with a resolved value that is not blank;
  and each of these keys other than \<open>sslcertmode\<close> is there exactly when its resolved
  value is not blank. In the copy of \<open>DSN\<close> that reads \<open>PGSSLCERTMODE\<close> this holds for
  \<open>sslcertmode\<close> as well.
\<close>

theorem DSN_format:
  assumes "range_order DSN_keys order" and "range_order DSN_part_002_keys order'"
  shows "(\<exists>S. DSN_part_002 env NumCPU order' =
              ''postgresql://'' @ escape (host_of env) encodeHost
                @ (if S = [] then '''' else ''?'' @ join_amp (map setting S))
            \<and> distinct (map fst S)
            \<and> set S = set (kept (resolved_part_002 env NumCPU)))
       \<and> (\<forall>k. Values_Has (Query_of (DSN_part_002 env NumCPU order')) k
              \<longleftrightarrow> (\<exists>v. (k, v) \<in> set (resolved_part_002 env NumCPU) \<and> \<not> blank v))
       \<and> (\<exists>S. DSN env NumCPU order =
              ''postgresql://'' @ escape (host_of env) encodeHost
                @ (if S = [] then '''' else ''?'' @ join_amp (map setting S))
            \<and> distinct (map fst S)
            \<and> set S \<subseteq> set (kept (resolved_part_002 env NumCPU))
            \<and> (\<forall>kv \<in> set (kept (resolved_part_002 env NumCPU)).
                  fst kv \<noteq> ''sslcertmode'' \<longrightarrow> kv \<in> set S))
       \<and> (\<forall>k. Values_Has (Query_of (DSN env NumCPU order)) k
              \<longrightarrow> (\<exists>v. (k, v) \<in> set (resolved_part_002 env NumCPU) \<and> \<not> blank v))
       \<and> (\<forall>k. k \<noteq> ''sslcertmode'' \<longrightarrow>
              (Values_Has (Query_of (DSN env NumCPU order)) k
                \<longleftrightarrow> (\<exists>v. (k, v) \<in> set (resolved_part_002 env NumCPU) \<and> \<not> blank v)))"
proof (intro conjI)
  show "\<exists>S. DSN_part_002 env NumCPU order' =
              ''postgresql://'' @ escape (host_of env) encodeHost
                @ (if S = [] then '''' else ''?'' @ join_amp (map setting S))
            \<and> distinct (map fst S)
            \<and> set S = set (kept (resolved_part_002 env NumCPU))"
    using assms(2) by (rule DSN_part_002_settings)
  show "\<forall>k. Values_Has (Query_of (DSN_part_002 env NumCPU order')) k
              \<longleftrightarrow> (\<exists>v. (k, v) \<in> set (resolved_part_002 env NumCPU) \<and> \<not> blank v)"
    using DSN_part_002_has [OF assms(2)] by blast
  show "\<exists>S. DSN env NumCPU order =
              ''postgresql://'' @ escape (host_of env) encodeHost
                @ (if S = [] then '''' else ''?'' @ join_amp (map setting S))
            \<and> distinct (map fst S)
            \<and> set S \<subseteq> set (kept (resolved_part_002 env NumCPU))
            \<and> (\<forall>kv \<in> set (kept (resolved_part_002 env NumCPU)).
                  fst kv \<noteq> ''sslcertmode'' \<longrightarrow> kv \<in> set S)"
    using assms(1) by (rule DSN_settings)
  show "\<forall>k. Values_Has (Query_of (DSN env NumCPU order)) k
              \<longrightarrow> (\<exists>v. (k, v) \<in> set (resolved_part_002 env NumCPU) \<and> \<not> blank v)"
    unfolding DSN_has_of_part_002 [OF assms] by blast
  show "\<forall>k. k \<noteq> ''sslcertmode'' \<longrightarrow>
              (Values_Has (Query_of (DSN env NumCPU order)) k
                \<longleftrightarrow> (\<exists>v. (k, v) \<in> set (resolved_part_002 env NumCPU) \<and> \<not> blank v))"
    unfolding DSN_has_of_part_002 [OF assms] by blast
qed

text \<open>With a host and a user set: the string, and two of the keys in either copy.\<close>

theorem DSN_format_witness:
  "range_order DSN_keys DSN_keys \<and> range_order DSN_part_002_keys DSN_part_002_keys
   \<and> (\<exists>S. DSN_part_002 [''PGHOST'' \<mapsto> ''db.example.com'', ''PGUSER'' \<mapsto> ''app''] 8 DSN_part_002_keys
            = ''postgresql://''
                @ escape (host_of [''PGHOST'' \<mapsto> ''db.example.com'', ''PGUSER'' \<mapsto> ''app'']) encodeHost
                @ (if S = [] then '''' else ''?'' @ join_amp (map setting S))
          \<and> distinct (map fst S)
          \<and> set S = set (kept (resolved_part_002
                [''PGHOST'' \<mapsto> ''db.example.com'', ''PGUSER'' \<mapsto> ''app''] 8)))
   \<and> DSN_part_002 [''PGHOST'' \<mapsto> ''db.example.com'', ''PGUSER'' \<mapsto> ''app''] 8 DSN_part_002_keys
        = ''postgresql://db.example.com?connect_timeout=10&pool_max_conns=8&pool_min_conns=1&port=5432&user=app''
   \<and> Values_Has (Query_of (DSN_part_002
          [''PGHOST'' \<mapsto> ''db.example.com'', ''PGUSER'' \<mapsto> ''app''] 8 DSN_part_002_keys)) ''user''
   \<and> \<not> Values_Has (Query_of (DSN_part_002
          [''PGHOST'' \<mapsto> ''db.example.com'', ''PGUSER'' \<mapsto> ''app''] 8 DSN_part_002_keys)) ''sslmode''
   \<and> Values_Has (Query_of (DSN
          [''PGHOST'' \<mapsto> ''db.example.com'', ''PGUSER'' \<mapsto> ''app''] 8 DSN_keys)) ''user''
   \<and> \<not> Values_Has (Query_of (DSN
          [''PGHOST'' \<mapsto> ''db.example.com'', ''PGUSER'' \<mapsto> ''app''] 8 DSN_keys)) ''sslmode''"
proof -
  let ?env = "[''PGHOST'' \<mapsto> ''db.example.com'', ''PGUSER'' \<mapsto> ''app'']"
  note t = DSN_format [OF range_order_refl, of ?env 8]
  have str: "DSN_part_002 ?env 8 DSN_part_002_keys
        = ''postgresql://db.example.com?connect_timeout=10&pool_max_conns=8&pool_min_conns=1&port=5432&user=app''"
    by code_simp
  have user: "\<exists>v. (''user'', v) \<in> set (resolved_part_002 ?env 8) \<and> \<not> blank v"
  proof (intro exI conjI)
    show "(''user'', ''app'') \<in> set (resolved_part_002 ?env 8)"
      by (simp add: resolved_part_002_def Getenv_def)
    show "\<not> blank ''app''"
      by (rule not_blank_graphic) (simp_all add: graphic_def asciiSpace_def RuneSelf_def)
  qed
  have sslmode: "\<not> (\<exists>v. (''sslmode'', v) \<in> set (resolved_part_002 ?env 8) \<and> \<not> blank v)"
    by (simp add: resolved_part_002_def Getenv_def blank_empty)
  have ne: "''user'' \<noteq> ''sslcertmode''" "''sslmode'' \<noteq> ''sslcertmode''"
    by simp_all
  from t have t1: "\<exists>S. DSN_part_002 ?env 8 DSN_part_002_keys
            = ''postgresql://'' @ escape (host_of ?env) encodeHost
                @ (if S = [] then '''' else ''?'' @ join_amp (map setting S))
          \<and> distinct (map fst S)
          \<and> set S = set (kept (resolved_part_002 ?env 8))"
    by (rule conjunct1)
  from t have t2: "\<forall>k. Values_Has (Query_of (DSN_part_002 ?env 8 DSN_part_002_keys)) k
              \<longleftrightarrow> (\<exists>v. (k, v) \<in> set (resolved_part_002 ?env 8) \<and> \<not> blank v)"
    by (elim conjE)
  from t have t5: "\<forall>k. k \<noteq> ''sslcertmode'' \<longrightarrow>
              (Values_Has (Query_of (DSN ?env 8 DSN_keys)) k
                \<longleftrightarrow> (\<exists>v. (k, v) \<in> set (resolved_part_002 ?env 8) \<and> \<not> blank v))"
    by (elim conjE)
  have "Values_Has (Query_of (DSN_part_002 ?env 8 DSN_part_002_keys)) ''user''"
    by (rule iffD2 [OF spec [OF t2] user])
  moreover have "\<not> Values_Has (Query_of (DSN_part_002 ?env 8 DSN_part_002_keys)) ''sslmode''"
    using sslmode iffD1 [OF spec [OF t2], of "''sslmode''"] by (rule contrapos_nn)
  moreover have "Values_Has (Query_of (DSN ?env 8 DSN_keys)) ''user''"
    by (rule iffD2 [OF mp [OF spec [OF t5] ne(1)] user])
  moreover have "\<not> Values_Has (Query_of (DSN ?env 8 DSN_keys)) ''sslmode''"
    using sslmode iffD1 [OF mp [OF spec [OF t5] ne(2)]] by (rule contrapos_nn)
  ultimately show ?thesis
    using range_order_refl t1 str by (intro conjI)
qed

lemma plain_key_unescaped:
  assumes "\<forall>c \<in> set k. alphanum c \<or> c = CHR ''_''"
  shows "QueryEscape k = k"
proof -
  have "escape_byte encodeQueryComponent c = [c]" if "alphanum c \<or> c = CHR ''_''" for c
    using that alphanum_not_special [of c]
    by (auto simp: escape_byte_def shouldEscape_def)
  then have "concat (map (escape_byte encodeQueryComponent) k) = k"
    using assms by (induction k) simp_all
  then show ?thesis
    by (simp add: QueryEscape_def escape_def)
qed

lemma DSN_keys_unescaped_all: "list_all (\<lambda>k. QueryEscape k = k) DSN_part_002_keys"
  by code_simp

lemma DSN_keys_unescaped: "k \<in> set DSN_part_002_keys \<Longrightarrow> QueryEscape k = k"
  using DSN_keys_unescaped_all by (simp add: list_all_iff)

lemma setting_key:
  "fst (Cut (setting kv) CHR ''='') = QueryEscape (fst kv)"
  by (simp add: Cut_setting)

lemma keys_of_raw_query:
  assumes "set (map fst L) \<subseteq> set DSN_part_002_keys"
  shows "map (\<lambda>s. fst (Cut s CHR ''='')) (splitting CHR ''&'' (raw_query L))
           = (if kept (sort_key fst L) = [] then [[]] else map fst (kept (sort_key fst L)))"
proof (cases "kept (sort_key fst L) = []")
  case True
  then show ?thesis
    unfolding settings_raw_query by (simp add: Cut_def)
next
  case False
  have "QueryEscape (fst kv) = fst kv" if "kv \<in> set (kept (sort_key fst L))" for kv
  proof -
    have "fst kv \<in> set (map fst L)"
      using that by (auto simp: kept_def)
    then show ?thesis
      using assms DSN_keys_unescaped by blast
  qed
  then have "map (\<lambda>s. fst (Cut s CHR ''='')) (map setting (kept (sort_key fst L)))
               = map fst (kept (sort_key fst L))"
    by (simp add: setting_key)
  with False show ?thesis
    unfolding settings_raw_query by simp
qed

lemma keys_strictly_sorted:
  assumes "distinct (map fst L)"
  shows "sorted_wrt (<) (map fst (kept (sort_key fst L)))"
proof -
  have "sorted (map fst (sort_key fst L))" "distinct (map fst (sort_key fst L))"
    using assms by (simp_all add: map_sort_key)
  then have "sorted_wrt (<) (map fst (sort_key fst L))"
    by (simp add: strict_sorted_iff)
  then have "sorted_wrt (\<lambda>a b. fst a < fst b) (sort_key fst L)"
    by (simp add: sorted_wrt_map)
  then have "sorted_wrt (\<lambda>a b. fst a < fst b) (kept (sort_key fst L))"
    unfolding kept_def by (rule sorted_wrt_filter)
  then show ?thesis
    by (simp add: sorted_wrt_map)
qed

lemma raw_query_keys_sorted:
  assumes "distinct (map fst L)" and "set (map fst L) \<subseteq> set DSN_part_002_keys"
  shows "sorted_wrt (<) (map (\<lambda>s. fst (Cut s CHR ''='')) (splitting CHR ''&'' (raw_query L)))"
  unfolding keys_of_raw_query [OF assms(2)]
  using keys_strictly_sorted [OF assms(1)] by simp

lemma same_variables:
  assumes "\<forall>x \<in> set DSN_variables. Getenv env1 x = Getenv env2 x"
  shows "host_of env1 = host_of env2"
    and "resolved env1 NumCPU = resolved env2 NumCPU"
    and "resolved_part_002 env1 NumCPU = resolved_part_002 env2 NumCPU"
  using assms by (simp_all add: DSN_variables_def host_of_def resolved_def resolved_part_002_def)

text \<open>
  C9. \<open>DSN\<close> is a function of the variables it reads and of the number of processing
  units: two environments that agree on these variables give the same string, whatever
  the two orders in which the runtime walks the query. In the query of the string the
  keys of the settings, read from left to right, are strictly ascending. This holds for
  both copies of \<open>DSN\<close>.
\<close>

theorem DSN_deterministic:
  assumes "range_order DSN_keys o1" and "range_order DSN_keys o2"
    and "range_order DSN_part_002_keys o1'" and "range_order DSN_part_002_keys o2'"
    and "\<forall>x \<in> set DSN_variables. Getenv env1 x = Getenv env2 x"
  shows "DSN env1 NumCPU o1 = DSN env2 NumCPU o2
       \<and> DSN_part_002 env1 NumCPU o1' = DSN_part_002 env2 NumCPU o2'
       \<and> sorted_wrt (<) (map (\<lambda>s. fst (Cut s CHR ''=''))
            (splitting CHR ''&'' (RawQuery_of (DSN env1 NumCPU o1))))
       \<and> sorted_wrt (<) (map (\<lambda>s. fst (Cut s CHR ''=''))
            (splitting CHR ''&'' (RawQuery_of (DSN_part_002 env1 NumCPU o1'))))"
proof -
  have "DSN env1 NumCPU o1 = DSN env2 NumCPU o2"
    unfolding DSN_string [OF assms(1)] DSN_string [OF assms(2)] same_variables [OF assms(5)] ..
  moreover have "DSN_part_002 env1 NumCPU o1' = DSN_part_002 env2 NumCPU o2'"
    unfolding DSN_part_002_string [OF assms(3)] DSN_part_002_string [OF assms(4)]
      same_variables [OF assms(5)] ..
  moreover have "sorted_wrt (<) (map (\<lambda>s. fst (Cut s CHR ''=''))
            (splitting CHR ''&'' (RawQuery_of (DSN env1 NumCPU o1))))"
    unfolding DSN_RawQuery [OF assms(1)]
    using resolved_distinct DSN_keys_subset
    by (intro raw_query_keys_sorted) (simp_all add: resolved_keys')
  moreover have "sorted_wrt (<) (map (\<lambda>s. fst (Cut s CHR ''=''))
            (splitting CHR ''&'' (RawQuery_of (DSN_part_002 env1 NumCPU o1'))))"
    unfolding DSN_part_002_RawQuery [OF assms(3)]
    using resolved_part_002_distinct
    by (intro raw_query_keys_sorted) (simp_all add: resolved_part_002_keys)
  ultimately show ?thesis
    by simp
qed

text \<open>Two environments that differ in a variable \<open>DSN\<close> does not read, and two
  opposite orders of the loop: the strings are equal, and the keys ascend.\<close>

theorem DSN_deterministic_witness:
  "DSN [''PGUSER'' \<mapsto> ''app'', ''HOME'' \<mapsto> ''/root''] 8 DSN_keys
     = DSN [''PGUSER'' \<mapsto> ''app''] 8 (rev DSN_keys)
   \<and> DSN_part_002 [''PGUSER'' \<mapsto> ''app'', ''HOME'' \<mapsto> ''/root''] 8 DSN_part_002_keys
     = DSN_part_002 [''PGUSER'' \<mapsto> ''app''] 8 (rev DSN_part_002_keys)
   \<and> map (\<lambda>s. fst (Cut s CHR ''=''))
         (splitting CHR ''&'' (RawQuery_of (DSN [''PGUSER'' \<mapsto> ''app'', ''HOME'' \<mapsto> ''/root''] 8 DSN_keys)))
     = [''connect_timeout'', ''pool_max_conns'', ''pool_min_conns'', ''port'', ''user'']"
proof -
  have "distinct DSN_keys" "distinct DSN_part_002_keys"
    by (simp_all add: DSN_keys_def DSN_part_002_keys_def)
  then have o: "range_order DSN_keys (rev DSN_keys)"
      "range_order DSN_part_002_keys (rev DSN_part_002_keys)"
    by (simp_all add: range_order_def)
  have same: "\<forall>x \<in> set DSN_variables.
      Getenv [''PGUSER'' \<mapsto> ''app'', ''HOME'' \<mapsto> ''/root''] x = Getenv [''PGUSER'' \<mapsto> ''app''] x"
    by (simp add: DSN_variables_def Getenv_def)
  have keys: "map (\<lambda>s. fst (Cut s CHR ''=''))
         (splitting CHR ''&'' (RawQuery_of (DSN [''PGUSER'' \<mapsto> ''app'', ''HOME'' \<mapsto> ''/root''] 8 DSN_keys)))
     = [''connect_timeout'', ''pool_max_conns'', ''pool_min_conns'', ''port'', ''user'']"
    by code_simp
  show ?thesis
    using DSN_deterministic [OF range_order_refl(1) o(1) range_order_refl(2) o(2) same, of 8] keys
    by simp
qed

lemma same_but_PGTZ:
  assumes "\<forall>x. x \<noteq> ''PGTZ'' \<longrightarrow> env1 x = env2 x"
  shows "host_of env1 = host_of env2"
    and "resolved env1 NumCPU = resolved env2 NumCPU"
    and "resolved_part_002 env1 NumCPU = resolved_part_002 env2 NumCPU"
proof -
  have "Getenv env1 x = Getenv env2 x" if "x \<noteq> ''PGTZ''" for x
    using assms that by (simp add: Getenv_def)
  then show "host_of env1 = host_of env2"
    and "resolved env1 NumCPU = resolved env2 NumCPU"
    and "resolved_part_002 env1 NumCPU = resolved_part_002 env2 NumCPU"
    by (simp_all add: host_of_def resolved_def resolved_part_002_def)
qed

text \<open>
  C10. The variable \<open>PGTZ\<close> has no effect on what \<open>DSN\<close> returns, although the function
  reads it and gives it the default \<open>UTC\<close>: two environments that differ at most in
  \<open>PGTZ\<close> give the same string. Every key that reading the string back gives is one of
  the keys that \<open>DSN\<close> adds, none of which is about the time zone; in particular there is
  no parameter \<open>timezone\<close>. This holds for both copies of \<open>DSN\<close>.
\<close>

theorem PGTZ_ignored:
  assumes "range_order DSN_keys o1" and "range_order DSN_keys o2"
    and "range_order DSN_part_002_keys o1'" and "range_order DSN_part_002_keys o2'"
    and "\<forall>x. x \<noteq> ''PGTZ'' \<longrightarrow> env1 x = env2 x"
  shows "DSN env1 NumCPU o1 = DSN env2 NumCPU o2
       \<and> DSN_part_002 env1 NumCPU o1' = DSN_part_002 env2 NumCPU o2'
       \<and> (\<forall>k. Values_Has (Query_of (DSN env1 NumCPU o1)) k \<longrightarrow> k \<in> set DSN_keys)
       \<and> (\<forall>k. Values_Has (Query_of (DSN_part_002 env1 NumCPU o1')) k \<longrightarrow> k \<in> set DSN_part_002_keys)
       \<and> \<not> Values_Has (Query_of (DSN env1 NumCPU o1)) ''timezone''
       \<and> \<not> Values_Has (Query_of (DSN_part_002 env1 NumCPU o1')) ''timezone''"
proof -
  have "DSN env1 NumCPU o1 = DSN env2 NumCPU o2"
    unfolding DSN_string [OF assms(1)] DSN_string [OF assms(2)] same_but_PGTZ [OF assms(5)] ..
  moreover have "DSN_part_002 env1 NumCPU o1' = DSN_part_002 env2 NumCPU o2'"
    unfolding DSN_part_002_string [OF assms(3)] DSN_part_002_string [OF assms(4)]
      same_but_PGTZ [OF assms(5)] ..
  moreover have k1: "k \<in> set DSN_keys" if "Values_Has (Query_of (DSN env1 NumCPU o1)) k" for k
  proof -
    from that obtain v where "(k, v) \<in> set (resolved env1 NumCPU)"
      unfolding DSN_has [OF assms(1)] by blast
    then have "k \<in> set (map fst (resolved env1 NumCPU))"
      by force
    then show ?thesis
      by (simp only: resolved_keys')
  qed
  moreover have k2: "k \<in> set DSN_part_002_keys"
    if "Values_Has (Query_of (DSN_part_002 env1 NumCPU o1')) k" for k
  proof -
    from that obtain v where "(k, v) \<in> set (resolved_part_002 env1 NumCPU)"
      unfolding DSN_part_002_has [OF assms(3)] by blast
    then have "k \<in> set (map fst (resolved_part_002 env1 NumCPU))"
      by force
    then show ?thesis
      by (simp only: resolved_part_002_keys)
  qed
  moreover have "''timezone'' \<notin> set DSN_keys" "''timezone'' \<notin> set DSN_part_002_keys"
    by (simp_all add: DSN_keys_def DSN_part_002_keys_def)
  ultimately show ?thesis
    by blast
qed

text \<open>With \<open>PGTZ\<close> set and with no variable set the strings are the same.\<close>

theorem PGTZ_ignored_witness:
  "DSN [''PGTZ'' \<mapsto> ''Europe/Paris''] 8 DSN_keys = DSN Map.empty 8 DSN_keys
   \<and> DSN_part_002 [''PGTZ'' \<mapsto> ''Europe/Paris''] 8 DSN_part_002_keys
       = DSN_part_002 Map.empty 8 DSN_part_002_keys
   \<and> DSN [''PGTZ'' \<mapsto> ''Europe/Paris''] 8 DSN_keys
       = ''postgresql://localhost?connect_timeout=10&pool_max_conns=8&pool_min_conns=1&port=5432''
   \<and> \<not> Values_Has (Query_of (DSN [''PGTZ'' \<mapsto> ''Europe/Paris''] 8 DSN_keys)) ''timezone''"
proof -
  have same: "\<forall>x. x \<noteq> ''PGTZ'' \<longrightarrow> [''PGTZ'' \<mapsto> ''Europe/Paris''] x = (Map.empty :: environ) x"
    by simp
  have "DSN [''PGTZ'' \<mapsto> ''Europe/Paris''] 8 DSN_keys
       = ''postgresql://localhost?connect_timeout=10&pool_max_conns=8&pool_min_conns=1&port=5432''"
    by code_simp
  then show ?thesis
    using PGTZ_ignored [OF range_order_refl(1) range_order_refl(1) range_order_refl(2)
        range_order_refl(2) same, of 8]
    by blast
qed

subsection \<open>Connection and Disconnect\<close>

text \<open>One caller alone, run step by step, does what \<open>Connection\<close> does.\<close>

lemma run_alone:
  "run lib [0, 0, 0, 0, 0] ([\<lparr>ctx_of = ctx, uri_of = uri, at = AtLoad\<rparr>], s)
     = ([\<lparr>ctx_of = ctx, uri_of = uri, at = Returned (fst (Connection lib ctx uri s))\<rparr>],
        snd (Connection lib ctx uri s))"
  by (simp add: step_def Connection_def Pool_Acquire_def Let_def split: sum.splits option.splits)

lemma Connection_ready:
  assumes "Pool s = Some p"
  shows "Connection lib ctx uri s = (Acquire lib ctx p, s)"
  using assms by (simp add: Connection_def Pool_Acquire_def)

lemma sequential_calls_build_one_pool:
  assumes "Pool s = None" and "ParseConfig lib uri = Inr cfg" and "NewWithConfig lib ctx cfg = None"
  shows "constructed (snd (Connection lib ctx' uri' (snd (Connection lib ctx uri s))))
           = Suc (constructed s)"
  using assms by (simp add: Connection_def Pool_Acquire_def Let_def)

text \<open>
  C1 says that concurrent first calls of \<open>Connection\<close> with a valid connection string
  build exactly one pool. The function loads \<open>Pool\<close>, and stores the pool it built
  later, in two separate atomic steps. Two callers that both load before either stores
  both find nil and both build a pool: here the first caller runs up to its load, the
  second loads as well, the first finishes, and the second finishes. Two pools have
  been built; the first caller holds a connection of pool 0, which \<open>Pool\<close> no longer
  refers to.
\<close>

theorem concurrent_first_calls_build_two_pools:
  "run lib0 [0, 1, 0, 0, 0, 0, 1, 1, 1, 1]
     ([\<lparr>ctx_of = (), uri_of = ''postgresql://localhost'', at = AtLoad\<rparr>,
       \<lparr>ctx_of = (), uri_of = ''postgresql://localhost'', at = AtLoad\<rparr>], s0)
   = ([\<lparr>ctx_of = (), uri_of = ''postgresql://localhost'',
         at = Returned (Inr (Instance 0 ''postgresql://localhost''))\<rparr>,
       \<lparr>ctx_of = (), uri_of = ''postgresql://localhost'',
         at = Returned (Inr (Instance 1 ''postgresql://localhost''))\<rparr>],
      \<lparr>Pool = Some (Instance 1 ''postgresql://localhost''), constructed = 2, log = []\<rparr>)"
  by (simp add: step_def lib0_def s0_def Pool_Acquire_def)

text \<open>
  C2. Let the slot \<open>Pool\<close> be empty and let \<open>ParseConfig\<close> reject the connection string.
  Then \<open>Connection\<close> returns that error and no connection, and changes nothing but the
  log: the slot stays empty and no pool is built. A call that follows with a
  connection string that \<open>ParseConfig\<close> accepts, when the library builds the pool and
  leases a connection, builds the pool, stores it in the slot and returns the connection.
\<close>

theorem malformed_DSN_leaves_slot_empty:
  assumes "Pool s = None" and "ParseConfig lib uri = Inl e"
    and "ParseConfig lib uri' = Inr cfg" and "NewWithConfig lib ctx' cfg = None"
    and "Acquire lib ctx' (Instance (constructed s) cfg) = Inr c"
  shows "Connection lib ctx uri s =
           (Inl e, s\<lparr>log := log s @ [Log LevelError
              ''Unable to Generate Configuration from DSN String'' [(''error'', Error_text e)]]\<rparr>)
       \<and> Pool (snd (Connection lib ctx uri s)) = None
       \<and> constructed (snd (Connection lib ctx uri s)) = constructed s
       \<and> fst (Connection lib ctx' uri' (snd (Connection lib ctx uri s))) = Inr c
       \<and> Pool (snd (Connection lib ctx' uri' (snd (Connection lib ctx uri s))))
           = Some (Instance (constructed s) cfg)
       \<and> constructed (snd (Connection lib ctx' uri' (snd (Connection lib ctx uri s))))
           = Suc (constructed s)"
  using assms by (simp add: Connection_def Pool_Acquire_def)

text \<open>A malformed string first, then a valid one, on the stand-in library.\<close>

theorem malformed_DSN_leaves_slot_empty_witness:
  "Connection lib0 () ''%zz'' s0 =
     (Inl (ErrOther ''cannot parse connection string''),
      s0\<lparr>log := [Log LevelError ''Unable to Generate Configuration from DSN String''
                   [(''error'', ''cannot parse connection string'')]]\<rparr>)
   \<and> Pool (snd (Connection lib0 () ''%zz'' s0)) = None
   \<and> fst (Connection lib0 () ''postgresql://localhost'' (snd (Connection lib0 () ''%zz'' s0)))
       = Inr (Instance 0 ''postgresql://localhost'')
   \<and> constructed (snd (Connection lib0 () ''postgresql://localhost''
         (snd (Connection lib0 () ''%zz'' s0)))) = 1"
proof -
  have "Pool s0 = None" "constructed s0 = 0" "log s0 = []"
    by (simp_all add: s0_def)
  moreover have "ParseConfig lib0 ''%zz'' = Inl (ErrOther ''cannot parse connection string'')"
    and "ParseConfig lib0 ''postgresql://localhost'' = Inr ''postgresql://localhost''"
    and "NewWithConfig lib0 () ''postgresql://localhost'' = None"
    and "Acquire lib0 () (Instance (constructed s0) ''postgresql://localhost'')
           = Inr (Instance 0 ''postgresql://localhost'')"
    by (simp_all add: lib0_def s0_def)
  ultimately show ?thesis
    using malformed_DSN_leaves_slot_empty [of s0 lib0 "''%zz''"
        "ErrOther ''cannot parse connection string''" "''postgresql://localhost''"
        "''postgresql://localhost''" "()" "Instance 0 ''postgresql://localhost''" "()"]
    by auto
qed

text \<open>What \<open>Disconnect\<close> does, in one equation.\<close>

lemma Disconnect_effects:
  "Disconnect Rollback ctx connection tx trace =
     trace
     @ (case tx of None \<Rightarrow> [] | Some t \<Rightarrow> [RollbackCalled t, Logged (rollback_record (Rollback ctx t))])
     @ (case connection of None \<Rightarrow> [] | Some c \<Rightarrow> [ReleaseCalled c])"
  by (cases tx; cases connection; cases "Rollback ctx (the tx)")
    (simp_all add: Disconnect_def rollback_record_def Let_def)

text \<open>
  C7. When the transaction is not nil and its rollback reports an error that is
  \<open>pgx.ErrTxClosed\<close> (or wraps it), \<open>Disconnect\<close> logs one record, at level Info, and
  then releases the connection if there is one. Whatever the rollback reports, the
  call of \<open>Rollback\<close> and its log record come before the call of \<open>Release\<close>.
\<close>

theorem closed_transaction_info_then_release:
  assumes "Rollback ctx t = Some e" and "errors_Is e ErrTxClosed"
  shows "Disconnect Rollback ctx (Some c) (Some t) trace =
           trace @ [RollbackCalled t,
                    Logged (Log LevelInfo ''Successfully Committed Database Transaction'' []),
                    ReleaseCalled c]
       \<and> Disconnect Rollback ctx None (Some t) trace =
           trace @ [RollbackCalled t,
                    Logged (Log LevelInfo ''Successfully Committed Database Transaction'' [])]
       \<and> (\<forall>Rollback' c' t'. \<exists>r.
             Disconnect Rollback' ctx (Some c') (Some t') trace
               = trace @ [RollbackCalled t', Logged r, ReleaseCalled c'])"
  using assms by (simp add: Disconnect_effects rollback_record_def)

text \<open>A rollback that reports a wrapped \<open>ErrTxClosed\<close>.\<close>

theorem closed_transaction_info_then_release_witness:
  "errors_Is (ErrWrap ''rollback failed: tx is closed'' ErrTxClosed) ErrTxClosed
   \<and> Disconnect (\<lambda>ctx t. Some (ErrWrap ''rollback failed: tx is closed'' ErrTxClosed)) ()
        (Some (7 :: nat)) (Some (3 :: nat)) []
       = [RollbackCalled 3,
          Logged (Log LevelInfo ''Successfully Committed Database Transaction'' []),
          ReleaseCalled 7]"
  using closed_transaction_info_then_release
    [of "\<lambda>ctx t. Some (ErrWrap ''rollback failed: tx is closed'' ErrTxClosed)" "()" "3 :: nat"
        "ErrWrap ''rollback failed: tx is closed'' ErrTxClosed" "7 :: nat" "[]"]
  by simp

text \<open>
  C8. \<open>Disconnect\<close> has no result, so it cannot return an error; all it does is the
  sequence of effects below. An error of the rollback ends up in a log record and
  nowhere else, and the connection is released after it all the same. With a nil
  transaction and a nil connection it does nothing.
\<close>

theorem Disconnect_only_logs:
  "Disconnect Rollback ctx None None trace = trace
   \<and> Disconnect Rollback ctx connection tx trace =
       trace
       @ (case tx of None \<Rightarrow> []
          | Some t \<Rightarrow>
              [RollbackCalled t,
               Logged (case Rollback ctx t of
                   None \<Rightarrow> Log LevelInfo ''Successfully Rolled Back Database Transaction'' []
                 | Some e \<Rightarrow>
                     if errors_Is e ErrTxClosed
                     then Log LevelInfo ''Successfully Committed Database Transaction'' []
                     else Log LevelError ''Error Rolling Back Transaction''
                            [(''error'', Error_text e)])])
       @ (case connection of None \<Rightarrow> [] | Some c \<Rightarrow> [ReleaseCalled c])"
  by (cases tx) (simp_all add: Disconnect_effects rollback_record_def)

text \<open>A rollback that fails for another reason, and the call with nil and nil.\<close>

theorem Disconnect_only_logs_witness:
  "Disconnect (\<lambda>ctx t. Some (ErrOther ''connection reset'')) () (Some (7 :: nat)) (Some (3 :: nat)) []
     = [RollbackCalled 3,
        Logged (Log LevelError ''Error Rolling Back Transaction'' [(''error'', ''connection reset'')]),
        ReleaseCalled 7]
   \<and> Disconnect (\<lambda>ctx t. Some (ErrOther ''connection reset'')) () (None :: nat option)
        (None :: nat option) [] = []"
  using Disconnect_only_logs [of "\<lambda>ctx t. Some (ErrOther ''connection reset'')" "()" "[]"
      "Some (7 :: nat)" "Some (3 :: nat)"]
    Disconnect_only_logs [of "\<lambda>ctx t. Some (ErrOther ''connection reset'')" "()"
      "[] :: (nat, nat) effect list" "None :: nat option" "None :: nat option"]
  by simp

end
